theory Spec2Isabelle
  imports Main "HOL-Library.Char_ord" "HOL-Library.List_Lexorder" "HOL-Library.Sublist"
begin

section \<open>Python values and exceptions\<close>

text \<open>
  A class object. Python compares classes by identity (\<^verbatim>\<open>self.cls is other.cls\<close>); two
  distinct classes may share their \<^verbatim>\<open>__name__\<close>, so a class is its identity together
  with its name.
\<close>

datatype cls = Cls (cls_id: nat) (cls_name: string)

text \<open>
  The exceptions of \<^verbatim>\<open>_base.py\<close>. The three \<^verbatim>\<open>ValueError\<close>s the module raises itself are
  told apart by their message; \<open>Raised\<close> is any exception raised by code outside the
  module (a descriptor's \<^verbatim>\<open>calculate\<close>, a constructor, a \<^verbatim>\<open>preset\<close>).
\<close>

datatype exn =
    ValueError_not_descriptor
  | ValueError_cannot_create cls "int list"
  | ValueError_key_not_provided
  | TypeError
  | AttributeError
  | IndexError
  | Raised string

section \<open>Key\<close>

text \<open>
  \<^verbatim>\<open>class Key\<close>: slots \<^verbatim>\<open>cls\<close> and \<^verbatim>\<open>args\<close>. Arguments are modelled as integers, whose
  Python equality is HOL equality.
\<close>

datatype key = Key (cls: cls) (args: "int list")

text \<open>\<^verbatim>\<open>__hash__\<close>: \<^verbatim>\<open>hash((self.cls, self.args))\<close>; the builtin \<^verbatim>\<open>hash\<close> is a parameter.\<close>

definition Key_hash :: "(cls \<times> int list \<Rightarrow> int) \<Rightarrow> key \<Rightarrow> int" where
  "Key_hash py_hash self = py_hash (cls self, args self)"

definition Key_eq :: "key \<Rightarrow> key \<Rightarrow> bool" where
  "Key_eq self other \<longleftrightarrow> cls self = cls other \<and> args self = args other"

definition Key_ne :: "key \<Rightarrow> key \<Rightarrow> bool" where
  "Key_ne self other \<longleftrightarrow> cls self \<noteq> cls other \<or> args self \<noteq> args other"

text \<open>Python's \<^verbatim>\<open>str\<close> of an integer.\<close>

function str_nat :: "nat \<Rightarrow> string" where
  "str_nat n = (if n < 10 then [char_of (48 + n)]
                else str_nat (n div 10) @ [char_of (48 + n mod 10)])"
  by pat_completeness auto
termination
  by (relation "measure id") auto

definition str_int :: "int \<Rightarrow> string" where
  "str_int i = (if i < 0 then CHR ''-'' # str_nat (nat (- i)) else str_nat (nat i))"

text \<open>
  \<^verbatim>\<open>__str__\<close>: \<^verbatim>\<open>self.cls.__name__ + str(hash(tuple(self.args)))\<close>; the hash of the argument
  tuple is a parameter.
\<close>

definition Key_str :: "(int list \<Rightarrow> int) \<Rightarrow> key \<Rightarrow> string" where
  "Key_str hash_args self = cls_name (cls self) @ str_int (hash_args (args self))"

section \<open>Descriptor\<close>

text \<open>
  A descriptor instance is its class and the values of the attributes the calculator
  reads: \<^verbatim>\<open>descriptor_key\<close> (which may be \<^verbatim>\<open>None\<close>), the three variant flags, the
  \<^verbatim>\<open>dependencies\<close> mapping (an association list in iteration order; \<^verbatim>\<open>None\<close> and \<^verbatim>\<open>{}\<close> are
  both the empty list, as in \<^verbatim>\<open>desc.dependencies or {}\<close>) and \<^verbatim>\<open>calculate\<close>, which receives
  the molecule variant and the keyword arguments and returns a value or raises.
  A dependency is \<^verbatim>\<open>None\<close>, a \<^verbatim>\<open>Key\<close> or a descriptor instance.
\<close>

datatype ('m, 'v) descriptor = Descriptor
    (type_of: cls)
    (descriptor_key: "key option")
    (explicit_hydrogens: bool)
    (gasteiger_charges: bool)
    (kekulize: bool)
    (dependencies: "(string \<times> ('m, 'v) dep) list")
    (calculate: "'m \<Rightarrow> (string \<times> 'v option) list \<Rightarrow> exn + 'v")
and ('m, 'v) dep = DepNone | DepKey key | DepDesc "('m, 'v) descriptor"

text \<open>\<^verbatim>\<open>Descriptor.make_key\<close>, a class method: \<^verbatim>\<open>Key(cls, *args)\<close>.\<close>

definition make_key :: "cls \<Rightarrow> int list \<Rightarrow> key" where
  "make_key c as = Key c as"

text \<open>
  The base class's \<^verbatim>\<open>descriptor_key\<close> property: \<^verbatim>\<open>self.make_key()\<close>. It reads only the
  class of the instance.
\<close>

definition Descriptor_descriptor_key :: "cls \<Rightarrow> key option" where
  "Descriptor_descriptor_key c = Some (make_key c [])"

text \<open>\<^verbatim>\<open>descriptor_name\<close>: \<^verbatim>\<open>str(self.descriptor_key)\<close>.\<close>

definition descriptor_name :: "(int list \<Rightarrow> int) \<Rightarrow> ('m, 'v) descriptor \<Rightarrow> string" where
  "descriptor_name hash_args d =
     (case descriptor_key d of None \<Rightarrow> ''None'' | Some k \<Rightarrow> Key_str hash_args k)"

text \<open>
  A concrete descriptor class \<^verbatim>\<open>D\<close> used in examples: its constructor takes one integer,
  \<^verbatim>\<open>calculate\<close> returns it, and \<^verbatim>\<open>descriptor_key\<close> is not overridden.
\<close>

definition cls_D :: cls where
  "cls_D = Cls 0 ''D''"

definition new_D :: "int \<Rightarrow> (string list, int) descriptor" where
  "new_D n = Descriptor cls_D (Descriptor_descriptor_key cls_D) True False False []
               (\<lambda>mol kwargs. Inr n)"

section \<open>Molecule: the cache of input variants\<close>

text \<open>
  The RDKit functions the module calls are parameters. \<^verbatim>\<open>Chem.AddHs\<close> and
  \<^verbatim>\<open>Chem.RemoveHs\<close> return a new molecule; \<^verbatim>\<open>Chem.Kekulize\<close> and
  \<^verbatim>\<open>ComputeGasteigerCharges\<close> return nothing and change their argument in place, so the
  corresponding field is the change they make to the object's contents.
  \<^verbatim>\<open>Chem.Mol(m)\<close> copies \<^verbatim>\<open>m\<close> into a new object.
\<close>

record 'm rdkit =
  AddHs :: "'m \<Rightarrow> 'm"
  RemoveHs :: "'m \<Rightarrow> 'm"
  Kekulize :: "'m \<Rightarrow> 'm"
  ComputeGasteigerCharges :: "'m \<Rightarrow> 'm"

type_synonym addr = nat

type_synonym flags = "bool \<times> bool \<times> bool"

text \<open>
  What a \<^verbatim>\<open>Molecule\<close> did, in order: each call of an RDKit function with the address of
  the object it was given, and each assignment \<^verbatim>\<open>self.cache[key] = mol\<close>.
\<close>

datatype mol_event =
    Call_AddHs addr
  | Call_RemoveHs addr
  | Call_Mol addr
  | Call_Kekulize addr
  | Call_ComputeGasteigerCharges addr
  | Store flags addr

text \<open>
  Molecule objects live in a store (\<open>heap\<close>, indexed by address), because two cache
  keys can hold the same object. \<open>orig\<close> is the address of the raw input.
\<close>

record 'm Molecule =
  orig :: addr
  cache :: "flags \<rightharpoonup> addr"
  heap :: "'m list"
  log :: "mol_event list"

text \<open>\<^verbatim>\<open>__init__\<close>: \<^verbatim>\<open>Chem.Kekulize(orig)\<close> on the caller's object, then an empty cache.\<close>

definition Molecule_init :: "'m rdkit \<Rightarrow> 'm \<Rightarrow> 'm Molecule" where
  "Molecule_init rd raw =
     \<lparr>orig = 0, cache = Map.empty, heap = [Kekulize rd raw], log = [Call_Kekulize 0]\<rparr>"

text \<open>\<^verbatim>\<open>key(explicitH=True, kekulize=False, gasteiger=False)\<close>.\<close>

definition Molecule_key :: "bool \<Rightarrow> bool \<Rightarrow> bool \<Rightarrow> flags" where
  "Molecule_key explicitH kek gast = (explicitH, kek, gast)"

definition Molecule_hydration :: "'m rdkit \<Rightarrow> 'm Molecule \<Rightarrow> bool \<Rightarrow> addr \<times> 'm Molecule" where
  "Molecule_hydration rd self explicitH =
     (let key = Molecule_key explicitH False False in
      case cache self key of
        Some a \<Rightarrow> (a, self)
      | None \<Rightarrow>
          let mol = length (heap self);
              self1 = self\<lparr>heap := heap self @
                          [(if explicitH then AddHs rd else RemoveHs rd) (heap self ! orig self)],
                        log := log self @
                          [if explicitH then Call_AddHs (orig self) else Call_RemoveHs (orig self)]\<rparr>
          in (mol, self1\<lparr>cache := (cache self1)(key \<mapsto> mol),
                         log := log self1 @ [Store key mol]\<rparr>))"

definition Molecule_kekulize :: "'m rdkit \<Rightarrow> 'm Molecule \<Rightarrow> bool \<Rightarrow> addr \<times> 'm Molecule" where
  "Molecule_kekulize rd self explicitH =
     (let key = Molecule_key explicitH True False in
      case cache self key of
        Some a \<Rightarrow> (a, self)
      | None \<Rightarrow>
          let (h, self1) = Molecule_hydration rd self explicitH;
              mol = length (heap self1);
              self2 = self1\<lparr>heap := heap self1 @ [heap self1 ! h],
                          log := log self1 @ [Call_Mol h]\<rparr>;
              self3 = self2\<lparr>heap := (heap self2)[mol := Kekulize rd (heap self2 ! mol)],
                          log := log self2 @ [Call_Kekulize mol]\<rparr>
          in (mol, self3\<lparr>cache := (cache self3)(key \<mapsto> mol),
                         log := log self3 @ [Store key mol]\<rparr>))"

definition Molecule_gasteiger ::
  "'m rdkit \<Rightarrow> 'm Molecule \<Rightarrow> bool \<Rightarrow> bool \<Rightarrow> addr \<times> 'm Molecule" where
  "Molecule_gasteiger rd self explicitH kek =
     (let key = Molecule_key explicitH kek True in
      case cache self key of
        Some a \<Rightarrow> (a, self)
      | None \<Rightarrow>
          let (mol, self1) = (if kek then Molecule_kekulize rd self explicitH
                              else Molecule_hydration rd self explicitH);
              self2 = self1\<lparr>heap := (heap self1)
                            [mol := ComputeGasteigerCharges rd (heap self1 ! mol)],
                          log := log self1 @ [Call_ComputeGasteigerCharges mol]\<rparr>
          in (mol, self2\<lparr>cache := (cache self2)(key \<mapsto> mol),
                         log := log self2 @ [Store key mol]\<rparr>))"

definition Molecule_get ::
  "'m rdkit \<Rightarrow> 'm Molecule \<Rightarrow> bool \<Rightarrow> bool \<Rightarrow> bool \<Rightarrow> addr \<times> 'm Molecule" where
  "Molecule_get rd self explicitH kek gast =
     (let key = Molecule_key explicitH kek gast in
      case cache self key of
        Some a \<Rightarrow> (a, self)
      | None \<Rightarrow>
          if gast then Molecule_gasteiger rd self explicitH kek
          else if kek then Molecule_kekulize rd self explicitH
          else Molecule_hydration rd self explicitH)"




text \<open>
  An RDKit stand-in for examples: a molecule is the list of the transformations
  applied to it.
\<close>

definition rd_ex :: "string list rdkit" where
  "rd_ex = \<lparr>AddHs = (\<lambda>m. m @ [''AddHs'']), RemoveHs = (\<lambda>m. m @ [''RemoveHs'']),
            Kekulize = (\<lambda>m. m @ [''Kekulize'']),
            ComputeGasteigerCharges = (\<lambda>m. m @ [''Gasteiger''])\<rparr>"

section \<open>Calculator: registration\<close>

text \<open>
  The objects \<^verbatim>\<open>register\<close> can be handed. \<open>Inst\<close> is a \<^verbatim>\<open>Descriptor\<close> instance and
  \<open>Atom\<close> any other object without \<^verbatim>\<open>__iter__\<close> that is neither a class nor a module
  (a number, say); \<open>Type\<close> is a class, \<open>Module\<close> a module with its attributes in
  definition order, \<open>Tuple\<close> a tuple and \<open>Seq\<close> any other iterable. An attribute of a
  module is a class or something that is not a class.
\<close>

datatype attr = AClass cls | AOther

datatype ('m, 'v) item =
    Inst "('m, 'v) descriptor"
  | Atom int
  | Type cls
  | Module "(string \<times> attr) list"
  | Tuple "('m, 'v) item list"
  | Seq "('m, 'v) item list"

text \<open>
  What the module asks of a class: \<^verbatim>\<open>issubclass(c, Descriptor)\<close>, calling it with
  arguments (the new object, or the exception raised) and \<^verbatim>\<open>c.preset()\<close>, a generator:
  the objects it yields, then the exception that ends it, if any.
\<close>

record ('m, 'v) pyclass =
  is_descriptor :: bool
  construct :: "('m, 'v) item list \<Rightarrow> exn + ('m, 'v) item"
  preset :: "('m, 'v) item list \<times> exn option"

text \<open>\<^verbatim>\<open>Descriptor.preset\<close>, the base class's generator: \<^verbatim>\<open>yield cls()\<close>.\<close>

definition Descriptor_preset ::
  "(('m, 'v) item list \<Rightarrow> exn + ('m, 'v) item) \<Rightarrow> ('m, 'v) item list \<times> exn option" where
  "Descriptor_preset new = (case new [] of Inl e \<Rightarrow> ([], Some e) | Inr obj \<Rightarrow> ([obj], None))"

text \<open>
  \<^verbatim>\<open>Key.create\<close>: \<^verbatim>\<open>self.cls(*self.args)\<close>, a \<^verbatim>\<open>TypeError\<close> becoming a \<^verbatim>\<open>ValueError\<close>.
\<close>

definition Key_create :: "(cls \<Rightarrow> ('m, 'v) pyclass) \<Rightarrow> key \<Rightarrow> exn + ('m, 'v) item" where
  "Key_create classes self =
     (case construct (classes (cls self)) (map Atom (args self)) of
        Inl TypeError \<Rightarrow> Inl (ValueError_cannot_create (cls self) (args self))
      | Inl e \<Rightarrow> Inl e
      | Inr obj \<Rightarrow> Inr obj)"

text \<open>
  The calculator object. \<^verbatim>\<open>molecule\<close> is an attribute that does not exist before the
  first \<^verbatim>\<open>__call__\<close>.
\<close>

record ('m, 'v) Calculator =
  descriptors :: "('m, 'v) descriptor list"
  explicitH :: bool
  gasteiger :: bool
  kekulize' :: bool
  molecule :: "'m Molecule option"

text \<open>
  A method that can raise returns the exception, if any, and the object as the method
  left it.
\<close>

definition register_one ::
  "('m, 'v) Calculator \<Rightarrow> ('m, 'v) item \<Rightarrow> exn option \<times> ('m, 'v) Calculator" where
  "register_one self desc =
     (case desc of
        Inst d \<Rightarrow>
          (None, self\<lparr>descriptors := descriptors self @ [d],
                      explicitH := (if explicit_hydrogens d then True else explicitH self),
                      gasteiger := (if gasteiger_charges d then True else gasteiger self),
                      kekulize' := (if kekulize d then True else kekulize' self)\<rparr>)
      | _ \<Rightarrow> (Some ValueError_not_descriptor, self))"

text \<open>\<^verbatim>\<open>for d in ...: self._register_one(d)\<close>.\<close>

fun register_each ::
  "('m, 'v) Calculator \<Rightarrow> ('m, 'v) item list \<Rightarrow> exn option \<times> ('m, 'v) Calculator" where
  "register_each self [] = (None, self)"
| "register_each self (d # ds) =
     (case register_one self d of
        (None, self1) \<Rightarrow> register_each self1 ds
      | (Some e, self1) \<Rightarrow> (Some e, self1))"

text \<open>The branch of \<^verbatim>\<open>register\<close> for a class: every object its \<^verbatim>\<open>preset()\<close> yields.\<close>

definition register_type ::
  "(cls \<Rightarrow> ('m, 'v) pyclass) \<Rightarrow> ('m, 'v) Calculator \<Rightarrow> cls \<Rightarrow>
   exn option \<times> ('m, 'v) Calculator" where
  "register_type classes self c =
     (case register_each self (fst (preset (classes c))) of
        (None, self1) \<Rightarrow> (snd (preset (classes c)), self1)
      | (Some e, self1) \<Rightarrow> (Some e, self1))"

text \<open>\<^verbatim>\<open>dir(module)\<close>: the attribute names, sorted.\<close>

definition dir :: "(string \<times> attr) list \<Rightarrow> string list" where
  "dir attrs = sort (remdups (map fst attrs))"

text \<open>
  The branch for a module, over the names \<^verbatim>\<open>dir\<close> gave. \<^verbatim>\<open>issubclass(d, Descriptor)\<close>
  raises \<^verbatim>\<open>TypeError\<close> when \<^verbatim>\<open>d\<close> is not a class; \<^verbatim>\<open>self.register(d)\<close> with a class
  takes the branch for a class.
\<close>

fun register_module ::
  "(cls \<Rightarrow> ('m, 'v) pyclass) \<Rightarrow> ('m, 'v) Calculator \<Rightarrow> (string \<times> attr) list \<Rightarrow>
   string list \<Rightarrow> exn option \<times> ('m, 'v) Calculator" where
  "register_module classes self attrs [] = (None, self)"
| "register_module classes self attrs (name # names) =
     (if take 1 name = ''_'' then register_module classes self attrs names
      else case map_of attrs name of
        Some (AClass d) \<Rightarrow>
          if is_descriptor (classes d)
          then (case register_type classes self d of
                  (None, self1) \<Rightarrow> register_module classes self1 attrs names
                | (Some e, self1) \<Rightarrow> (Some e, self1))
          else register_module classes self attrs names
      | Some AOther \<Rightarrow> (Some TypeError, self)
      | None \<Rightarrow> (Some AttributeError, self))"

fun register ::
  "(cls \<Rightarrow> ('m, 'v) pyclass) \<Rightarrow> ('m, 'v) Calculator \<Rightarrow> ('m, 'v) item list \<Rightarrow>
   exn option \<times> ('m, 'v) Calculator"
and register_item ::
  "(cls \<Rightarrow> ('m, 'v) pyclass) \<Rightarrow> ('m, 'v) Calculator \<Rightarrow> ('m, 'v) item \<Rightarrow>
   exn option \<times> ('m, 'v) Calculator" where
  "register classes self [] = (None, self)"
| "register classes self (desc # descs) =
     (case register_item classes self desc of
        (None, self1) \<Rightarrow> register classes self1 descs
      | (Some e, self1) \<Rightarrow> (Some e, self1))"
| "register_item classes self (Inst d) = register_one self (Inst d)"
| "register_item classes self (Atom n) = register_one self (Atom n)"
| "register_item classes self (Type c) = register_type classes self c"
| "register_item classes self (Module attrs) =
     register_module classes self attrs (dir attrs)"
| "register_item classes self (Tuple []) = (Some IndexError, self)"
| "register_item classes self (Tuple (Type c # rest)) =
     (case construct (classes c) rest of
        Inl e \<Rightarrow> (Some e, self)
      | Inr obj \<Rightarrow> register_one self obj)"
| "register_item classes self (Tuple (d # ds)) = register classes self (d # ds)"
| "register_item classes self (Seq ds) = register classes self ds"

text \<open>\<^verbatim>\<open>Calculator.__init__\<close>.\<close>

definition Calculator_init ::
  "(cls \<Rightarrow> ('m, 'v) pyclass) \<Rightarrow> ('m, 'v) item list \<Rightarrow> exn option \<times> ('m, 'v) Calculator" where
  "Calculator_init classes descs =
     register classes
       \<lparr>descriptors = [], explicitH = False, gasteiger = False, kekulize' = False,
        molecule = None\<rparr> descs"

section \<open>Calculator: evaluation\<close>

text \<open>
  A call returns, raises, or has not come back within the recursion depth allowed
  (\<open>OutOfFuel\<close>: the model of a recursion that does not end).
\<close>

datatype 'a outcome = Return 'a | Raise exn | OutOfFuel

text \<open>
  What one evaluation did, in order: each call of a descriptor's \<^verbatim>\<open>calculate\<close>, with
  the \<^verbatim>\<open>descriptor_key\<close> of the descriptor and what the call gave, and each assignment
  \<^verbatim>\<open>cache[desc.descriptor_key] = r\<close>.
\<close>

datatype 'v calc_event = Computed "key option" "exn + 'v" | Stored key 'v

text \<open>
  The state \<^verbatim>\<open>_calculate\<close> works on: the calculator (for \<^verbatim>\<open>self.molecule\<close>, which
  \<^verbatim>\<open>get\<close> updates), the \<^verbatim>\<open>cache\<close> dictionary it is passed, and the trace.
\<close>

record ('m, 'v) state =
  calculator :: "('m, 'v) Calculator"
  results :: "key \<rightharpoonup> 'v"
  trace :: "'v calc_event list"

text \<open>\<^verbatim>\<open>desc.descriptor_key\<close>, for a \<^verbatim>\<open>Key\<close> (itself) or a descriptor.\<close>

fun dep_key :: "('m, 'v) dep \<Rightarrow> key option" where
  "dep_key DepNone = None"
| "dep_key (DepKey k) = Some k"
| "dep_key (DepDesc d) = descriptor_key d"

text \<open>
  The dictionary comprehension that resolves the dependencies, in iteration order;
  \<open>calc\<close> is \<^verbatim>\<open>self._calculate\<close>. A \<^verbatim>\<open>None\<close> dependency is passed on as \<^verbatim>\<open>None\<close>.
\<close>

fun resolve_args ::
  "(('m, 'v) dep \<Rightarrow> ('m, 'v) state \<Rightarrow> 'v outcome \<times> ('m, 'v) state) \<Rightarrow>
   (string \<times> ('m, 'v) dep) list \<Rightarrow> ('m, 'v) state \<Rightarrow>
   (string \<times> 'v option) list outcome \<times> ('m, 'v) state" where
  "resolve_args calc [] s = (Return [], s)"
| "resolve_args calc ((name, DepNone) # rest) s =
     (case resolve_args calc rest s of
        (Return kwargs, s1) \<Rightarrow> (Return ((name, None) # kwargs), s1)
      | (Raise e, s1) \<Rightarrow> (Raise e, s1)
      | (OutOfFuel, s1) \<Rightarrow> (OutOfFuel, s1))"
| "resolve_args calc ((name, dep) # rest) s =
     (case calc dep s of
        (Return v, s1) \<Rightarrow>
          (case resolve_args calc rest s1 of
             (Return kwargs, s2) \<Rightarrow> (Return ((name, Some v) # kwargs), s2)
           | (Raise e, s2) \<Rightarrow> (Raise e, s2)
           | (OutOfFuel, s2) \<Rightarrow> (OutOfFuel, s2))
      | (Raise e, s1) \<Rightarrow> (Raise e, s1)
      | (OutOfFuel, s1) \<Rightarrow> (OutOfFuel, s1))"

text \<open>
  The body of \<^verbatim>\<open>_calculate\<close> once \<^verbatim>\<open>desc\<close> is known to be a descriptor instance:
  resolve the dependencies, fetch the variant, call \<^verbatim>\<open>calculate\<close>, check the key,
  store the result.
\<close>

definition calculate_instance ::
  "'m rdkit \<Rightarrow> (('m, 'v) dep \<Rightarrow> ('m, 'v) state \<Rightarrow> 'v outcome \<times> ('m, 'v) state) \<Rightarrow>
   ('m, 'v) descriptor \<Rightarrow> ('m, 'v) state \<Rightarrow> 'v outcome \<times> ('m, 'v) state" where
  "calculate_instance rd calc desc s =
     (case resolve_args calc (dependencies desc) s of
        (Raise e, s1) \<Rightarrow> (Raise e, s1)
      | (OutOfFuel, s1) \<Rightarrow> (OutOfFuel, s1)
      | (Return kwargs, s1) \<Rightarrow>
          (case molecule (calculator s1) of
             None \<Rightarrow> (Raise AttributeError, s1)
           | Some m \<Rightarrow>
               let (mol, m1) = Molecule_get rd m (explicit_hydrogens desc) (kekulize desc)
                                 (gasteiger_charges desc);
                   r = calculate desc (heap m1 ! mol) kwargs;
                   s2 = s1\<lparr>calculator := (calculator s1)\<lparr>molecule := Some m1\<rparr>,
                           trace := trace s1 @ [Computed (descriptor_key desc) r]\<rparr>
               in case r of
                    Inl e \<Rightarrow> (Raise e, s2)
                  | Inr v \<Rightarrow>
                      (case descriptor_key desc of
                         None \<Rightarrow> (Raise ValueError_key_not_provided, s2)
                       | Some k \<Rightarrow>
                           (Return v, s2\<lparr>results := (results s2)(k \<mapsto> v),
                                         trace := trace s2 @ [Stored k v]\<rparr>))))"

text \<open>
  \<^verbatim>\<open>_calculate\<close>. The first argument bounds the depth of the recursion. Called with
  \<^verbatim>\<open>None\<close>, or with a key whose class builds something that is not a descriptor, the
  attribute access fails.
\<close>

primrec Calculator_calculate ::
  "(cls \<Rightarrow> ('m, 'v) pyclass) \<Rightarrow> 'm rdkit \<Rightarrow> nat \<Rightarrow> ('m, 'v) dep \<Rightarrow> ('m, 'v) state \<Rightarrow>
   'v outcome \<times> ('m, 'v) state" where
  "Calculator_calculate classes rd 0 = (\<lambda>desc s. (OutOfFuel, s))"
| "Calculator_calculate classes rd (Suc n) = (\<lambda>desc s.
     case desc of
       DepNone \<Rightarrow> (Raise AttributeError, s)
     | DepKey k \<Rightarrow>
         (case results s k of
            Some v \<Rightarrow> (Return v, s)
          | None \<Rightarrow>
              (case Key_create classes k of
                 Inl e \<Rightarrow> (Raise e, s)
               | Inr (Inst d) \<Rightarrow>
                   calculate_instance rd (Calculator_calculate classes rd n) d s
               | Inr _ \<Rightarrow> (Raise AttributeError, s)))
     | DepDesc d \<Rightarrow>
         (case (case descriptor_key d of None \<Rightarrow> None | Some k \<Rightarrow> results s k) of
            Some v \<Rightarrow> (Return v, s)
          | None \<Rightarrow> calculate_instance rd (Calculator_calculate classes rd n) d s))"

text \<open>
  The generator \<^verbatim>\<open>__call__\<close> returns: the position of the list iterator over
  \<^verbatim>\<open>self.descriptors\<close>, the \<^verbatim>\<open>cache\<close> of the call, whether it has ended, and the trace.
\<close>

record 'v generator =
  pos :: nat
  gen_cache :: "key \<rightharpoonup> 'v"
  finished :: bool
  gen_trace :: "'v calc_event list"

text \<open>\<^verbatim>\<open>__call__\<close>: a new \<^verbatim>\<open>cache\<close>, \<^verbatim>\<open>self.molecule = Molecule(mol)\<close>, the generator.\<close>

definition Calculator_call ::
  "'m rdkit \<Rightarrow> ('m, 'v) Calculator \<Rightarrow> 'm \<Rightarrow> ('m, 'v) Calculator \<times> 'v generator" where
  "Calculator_call rd self mol =
     (self\<lparr>molecule := Some (Molecule_init rd mol)\<rparr>,
      \<lparr>pos = 0, gen_cache = Map.empty, finished = False, gen_trace = []\<rparr>)"

text \<open>
  \<^verbatim>\<open>next(gen)\<close>: \<open>Return (Some pair)\<close> is a yielded pair, \<open>Return None\<close> is
  \<^verbatim>\<open>StopIteration\<close>. The list iterator reads \<^verbatim>\<open>self.descriptors\<close> as it is now; an
  exception ends the generator.
\<close>

definition gen_next ::
  "(cls \<Rightarrow> ('m, 'v) pyclass) \<Rightarrow> 'm rdkit \<Rightarrow> (int list \<Rightarrow> int) \<Rightarrow> nat \<Rightarrow>
   ('m, 'v) Calculator \<Rightarrow> 'v generator \<Rightarrow>
   (string \<times> 'v) option outcome \<times> ('m, 'v) Calculator \<times> 'v generator" where
  "gen_next classes rd hash_args fuel self g =
     (if finished g then (Return None, self, g)
      else if pos g < length (descriptors self) then
        let desc = descriptors self ! pos g;
            name = descriptor_name hash_args desc;
            (r, s) = Calculator_calculate classes rd fuel (DepDesc desc)
                       \<lparr>calculator = self, results = gen_cache g, trace = gen_trace g\<rparr>;
            g1 = g\<lparr>pos := pos g + 1, gen_cache := results s, gen_trace := trace s\<rparr>
        in case r of
             Return v \<Rightarrow> (Return (Some (name, v)), calculator s, g1)
           | Raise e \<Rightarrow> (Raise e, calculator s, g1\<lparr>finished := True\<rparr>)
           | OutOfFuel \<Rightarrow> (OutOfFuel, calculator s, g1)
      else (Return None, self, g\<lparr>finished := True\<rparr>))"

text \<open>
  Consuming the generator: up to \<open>n\<close> calls of \<^verbatim>\<open>next\<close>, collecting the pairs, until one
  does not yield. The second component is \<open>None\<close> while every call has yielded.
\<close>

fun consume ::
  "(cls \<Rightarrow> ('m, 'v) pyclass) \<Rightarrow> 'm rdkit \<Rightarrow> (int list \<Rightarrow> int) \<Rightarrow> nat \<Rightarrow> nat \<Rightarrow>
   ('m, 'v) Calculator \<Rightarrow> 'v generator \<Rightarrow>
   (string \<times> 'v) list \<times> unit outcome option \<times> ('m, 'v) Calculator \<times> 'v generator" where
  "consume classes rd hash_args fuel 0 self g = ([], None, self, g)"
| "consume classes rd hash_args fuel (Suc n) self g =
     (case gen_next classes rd hash_args fuel self g of
        (Return (Some p), self1, g1) \<Rightarrow>
          (case consume classes rd hash_args fuel n self1 g1 of
             (ps, stop, self2, g2) \<Rightarrow> (p # ps, stop, self2, g2))
      | (Return None, self1, g1) \<Rightarrow> ([], Some (Return ()), self1, g1)
      | (Raise e, self1, g1) \<Rightarrow> ([], Some (Raise e), self1, g1)
      | (OutOfFuel, self1, g1) \<Rightarrow> ([], Some OutOfFuel, self1, g1))"


section \<open>Invariants and examples\<close>


definition cls_A :: cls where
  "cls_A = Cls 1 ''TypeA''"

definition cls_B :: cls where
  "cls_B = Cls 2 ''TypeB''"

text \<open>
  One \<^verbatim>\<open>Molecule\<close> asked for the explicit-hydrogen variant, then for the same variant
  with charges.
\<close>

definition mol_ex1 :: "string list Molecule" where
  "mol_ex1 = snd (Molecule_get rd_ex (Molecule_init rd_ex []) True False False)"

definition mol_ex2 :: "string list Molecule" where
  "mol_ex2 = snd (Molecule_get rd_ex mol_ex1 True False True)"


text \<open>
  Example classes. \<^verbatim>\<open>D\<close> derives from \<^verbatim>\<open>Descriptor\<close>, takes one integer and has a
  \<^verbatim>\<open>preset\<close> of two instances; \<^verbatim>\<open>Helper\<close> is a class that is not a descriptor;
  \<^verbatim>\<open>Loop\<close> is a descriptor class whose instances depend on \<^verbatim>\<open>Loop.make_key()\<close>, their own
  key. Any other class is not a descriptor.
\<close>

definition cls_Helper :: cls where
  "cls_Helper = Cls 3 ''Helper''"

definition cls_Loop :: cls where
  "cls_Loop = Cls 4 ''Loop''"

definition new_Loop :: "(string list, int) descriptor" where
  "new_Loop = Descriptor cls_Loop (Some (make_key cls_Loop [])) True False False
                [(''x'', DepKey (make_key cls_Loop []))] (\<lambda>mol kwargs. Inr 0)"

definition other_class :: "(string list, int) pyclass" where
  "other_class = \<lparr>is_descriptor = False, construct = (\<lambda>as. Inr (Atom 0)),
                  preset = ([], Some AttributeError)\<rparr>"

definition classes_ex :: "cls \<Rightarrow> (string list, int) pyclass" where
  "classes_ex c =
     (if c = cls_D then
        \<lparr>is_descriptor = True,
         construct = (\<lambda>as. case as of [Atom n] \<Rightarrow> Inr (Inst (new_D n)) | _ \<Rightarrow> Inl TypeError),
         preset = ([Inst (new_D 1), Inst (new_D 2)], None)\<rparr>
      else if c = cls_Loop then
        \<lparr>is_descriptor = True,
         construct = (\<lambda>as. case as of [] \<Rightarrow> Inr (Inst new_Loop) | _ \<Rightarrow> Inl TypeError),
         preset = Descriptor_preset
           (\<lambda>as. case as of [] \<Rightarrow> Inr (Inst new_Loop) | _ \<Rightarrow> Inl TypeError)\<rparr>
      else other_class)"

text \<open>A calculator with nothing registered.\<close>

definition calc0 :: "(string list, int) Calculator" where
  "calc0 = \<lparr>descriptors = [], explicitH = False, gasteiger = False, kekulize' = False,
            molecule = None\<rparr>"

text \<open>
  The claim about flattening, in its own words: the flat, ordered list of the objects a
  nesting of the accepted shapes resolves to. An instance (or any other plain object)
  resolves to itself, a class to the objects its \<^verbatim>\<open>preset()\<close> yields, a module to what
  its descriptor classes resolve to, in the order of \<^verbatim>\<open>dir\<close>, a \<^verbatim>\<open>(type, *args)\<close> tuple
  to the object the class builds from the arguments, and a sequence to what its items
  resolve to, in order. Where resolving raises (a \<^verbatim>\<open>preset\<close> or a constructor that
  raises, a module attribute that is not a class, an empty tuple), the list ends there,
  with the exception.
\<close>

definition append_flat ::
  "('m, 'v) item list \<times> exn option \<Rightarrow> ('m, 'v) item list \<times> exn option \<Rightarrow>
   ('m, 'v) item list \<times> exn option" where
  "append_flat a b =
     (case a of (ys, None) \<Rightarrow> (ys @ fst b, snd b) | (ys, Some e) \<Rightarrow> (ys, Some e))"

fun flat_module ::
  "(cls \<Rightarrow> ('m, 'v) pyclass) \<Rightarrow> (string \<times> attr) list \<Rightarrow> string list \<Rightarrow>
   ('m, 'v) item list \<times> exn option" where
  "flat_module classes attrs [] = ([], None)"
| "flat_module classes attrs (name # names) =
     (if take 1 name = ''_'' then flat_module classes attrs names
      else case map_of attrs name of
        Some (AClass d) \<Rightarrow>
          if is_descriptor (classes d)
          then append_flat (preset (classes d)) (flat_module classes attrs names)
          else flat_module classes attrs names
      | Some AOther \<Rightarrow> ([], Some TypeError)
      | None \<Rightarrow> ([], Some AttributeError))"

fun flat_all ::
  "(cls \<Rightarrow> ('m, 'v) pyclass) \<Rightarrow> ('m, 'v) item list \<Rightarrow> ('m, 'v) item list \<times> exn option"
and flat ::
  "(cls \<Rightarrow> ('m, 'v) pyclass) \<Rightarrow> ('m, 'v) item \<Rightarrow> ('m, 'v) item list \<times> exn option" where
  "flat_all classes [] = ([], None)"
| "flat_all classes (x # xs) = append_flat (flat classes x) (flat_all classes xs)"
| "flat classes (Inst d) = ([Inst d], None)"
| "flat classes (Atom n) = ([Atom n], None)"
| "flat classes (Type c) = preset (classes c)"
| "flat classes (Module attrs) =
     flat_module classes attrs (sort (remdups (map fst attrs)))"
| "flat classes (Tuple []) = ([], Some IndexError)"
| "flat classes (Tuple (Type c # rest)) =
     (case construct (classes c) rest of Inl e \<Rightarrow> ([], Some e) | Inr obj \<Rightarrow> ([obj], None))"
| "flat classes (Tuple (d # ds)) = flat_all classes (d # ds)"
| "flat classes (Seq ds) = flat_all classes ds"

text \<open>
  Registering the objects of such a list one by one, as \<^verbatim>\<open>_register_one\<close> does, and then
  raising the exception that ended the list, if any.
\<close>

definition register_stream ::
  "('m, 'v) Calculator \<Rightarrow> ('m, 'v) item list \<times> exn option \<Rightarrow>
   exn option \<times> ('m, 'v) Calculator" where
  "register_stream self ys =
     (case register_each self (fst ys) of
        (None, self1) \<Rightarrow> (snd ys, self1)
      | (Some e, self1) \<Rightarrow> (Some e, self1))"

text \<open>
  A nested registration: a class, a \<^verbatim>\<open>(type, *args)\<close> tuple, a module and a list within
  a list.
\<close>

definition items_ex :: "(string list, int) item list" where
  "items_ex =
     [Type cls_D, Tuple [Type cls_D, Atom 5],
      Module [(''Helper'', AClass cls_Helper), (''D'', AClass cls_D)],
      Seq [Inst (new_D 7), Seq [Inst (new_D 8)]]]"


section \<open>Traces of an evaluation\<close>

text \<open>The keys stored in the result cache, in order.\<close>

fun stored :: "'v calc_event list \<Rightarrow> key list" where
  "stored [] = []"
| "stored (Stored k v # evs) = k # stored evs"
| "stored (Computed k r # evs) = stored evs"

text \<open>A result cache after the assignments of a trace.\<close>

fun replay :: "'v calc_event list \<Rightarrow> (key \<rightharpoonup> 'v) \<Rightarrow> (key \<rightharpoonup> 'v)" where
  "replay [] c = c"
| "replay (Stored k v # evs) c = replay evs (c(k \<mapsto> v))"
| "replay (Computed k r # evs) c = replay evs c"

text \<open>A trace in which no \<^verbatim>\<open>calculate\<close> raised.\<close>

definition clean :: "'v calc_event list \<Rightarrow> bool" where
  "clean evs \<longleftrightarrow> (\<forall>ko e. Computed ko (Inl e) \<notin> set evs)"

text \<open>
  What a call did to the trace: no \<^verbatim>\<open>calculate\<close> raised before the last event; if the
  call returned, none raised at all; and if the last event is a \<^verbatim>\<open>calculate\<close> that
  raised, the call raised that exception. The result cache is the old one with the
  assignments of the trace.
\<close>

definition ok_trace ::
  "('m, 'v) state \<Rightarrow> bool \<Rightarrow> exn option \<Rightarrow> ('m, 'v) state \<Rightarrow> bool" where
  "ok_trace s ret raised s' \<longleftrightarrow>
     (\<exists>new. trace s' = trace s @ new \<and> results s' = replay new (results s) \<and>
        clean (butlast new) \<and> (ret \<longrightarrow> clean new) \<and>
        (\<forall>ko e. new \<noteq> [] \<and> last new = Computed ko (Inl e) \<longrightarrow> raised = Some e))"




text \<open>
  Two states whose calculators differ at most in \<^verbatim>\<open>self.molecule\<close>.
\<close>

definition frame :: "('m, 'v) state \<Rightarrow> ('m, 'v) state \<Rightarrow> bool" where
  "frame s s' \<longleftrightarrow> calculator s' = (calculator s)\<lparr>molecule := molecule (calculator s')\<rparr>"

text \<open>The state \<^verbatim>\<open>_calculate\<close> works on when a generator asks for its next element.\<close>

definition st :: "('m, 'v) Calculator \<Rightarrow> 'v generator \<Rightarrow> ('m, 'v) state" where
  "st self g = \<lparr>calculator = self, results = gen_cache g, trace = gen_trace g\<rparr>"

text \<open>Whether a call returned, and the exception it raised.\<close>

fun is_return :: "'a outcome \<Rightarrow> bool" where
  "is_return (Return v) = True"
| "is_return _ = False"

fun raised :: "'a outcome \<Rightarrow> exn option" where
  "raised (Raise e) = Some e"
| "raised _ = None"

section \<open>Example registries\<close>







text \<open>A registry with the descriptor that depends on its own key.\<close>

definition calc_Loop :: "(string list, int) Calculator" where
  "calc_Loop = calc0\<lparr>descriptors := [new_Loop], explicitH := True\<rparr>"

text \<open>A registry with one descriptor, which computes the size of the variant.\<close>

definition desc_len :: "(string list, int) descriptor" where
  "desc_len = Descriptor cls_A (Some (make_key cls_A [])) True False False []
                (\<lambda>mol kwargs. Inr (int (length mol)))"

definition calc_len :: "(string list, int) Calculator" where
  "calc_len = calc0\<lparr>descriptors := [desc_len], explicitH := True\<rparr>"

text \<open>A registry whose second descriptor raises.\<close>

definition desc_fail :: "(string list, int) descriptor" where
  "desc_fail = Descriptor cls_B (Some (make_key cls_B [])) True False False []
                 (\<lambda>mol kwargs. Inl (Raised ''ComputationError''))"

definition calc_fail :: "(string list, int) Calculator" where
  "calc_fail = calc0\<lparr>descriptors := [new_D 7, desc_fail, desc_len], explicitH := True\<rparr>"

text \<open>A hash of argument tuples for the examples.\<close>

definition hash0 :: "int list \<Rightarrow> int" where
  "hash0 as = 0"

text \<open>
  Consuming the first element of the registry whose second descriptor raises, and then
  asking for the second.
\<close>

definition run1_fail ::
  "(string \<times> int) list \<times> unit outcome option \<times> (string list, int) Calculator \<times> int generator" where
  "run1_fail = consume classes_ex rd_ex hash0 5 1 (fst (Calculator_call rd_ex calc_fail []))
                 (snd (Calculator_call rd_ex calc_fail []))"

definition step_fail ::
  "(string \<times> int) option outcome \<times> (string list, int) Calculator \<times> int generator" where
  "step_fail = gen_next classes_ex rd_ex hash0 5 (fst (snd (snd run1_fail)))
                 (snd (snd (snd run1_fail)))"

text \<open>A registration whose second item is a number.\<close>

definition items_bad :: "(string list, int) item list" where
  "items_bad = [Inst (new_D 7), Atom 3, Inst (new_D 8)]"




section \<open>Keys\<close>

text \<open>
  C9. Equality and hash of a \<^verbatim>\<open>Key\<close> are structural and order-sensitive on the class
  and the argument sequence: \<^verbatim>\<open>Key(A,1,2) == Key(A,1,2)\<close>, \<^verbatim>\<open>Key(A,1,2) != Key(A,2,1)\<close>,
  \<^verbatim>\<open>Key(A,1,2) != Key(B,1,2)\<close> for distinct classes; \<^verbatim>\<open>__eq__\<close> holds exactly of keys with
  the same class and arguments, \<^verbatim>\<open>__ne__\<close> is its negation, and equal keys have equal
  hashes.
\<close>

theorem Key_eq_structural:
  "Key_eq (Key a [1, 2]) (Key a [1, 2]) \<and>
   \<not> Key_eq (Key a [1, 2]) (Key a [2, 1]) \<and>
   (a \<noteq> b \<longrightarrow> \<not> Key_eq (Key a [1, 2]) (Key b [1, 2])) \<and>
   (Key_eq k1 k2 \<longleftrightarrow> k1 = k2) \<and>
   (Key_ne k1 k2 \<longleftrightarrow> \<not> Key_eq k1 k2) \<and>
   (Key_eq k1 k2 \<longrightarrow> Key_hash py_hash k1 = Key_hash py_hash k2)"
  by (cases k1; cases k2) (auto simp: Key_eq_def Key_ne_def Key_hash_def)

theorem Key_eq_structural_witness:
  "cls_A \<noteq> cls_B \<and>
   \<not> Key_eq (Key cls_A [1, 2]) (Key cls_B [1, 2]) \<and>
   Key_eq (Key cls_A [1, 2]) (Key cls_A [1, 2]) \<and>
   Key_hash (\<lambda>(c, as). int (cls_id c) + sum_list as) (Key cls_A [1, 2]) =
   Key_hash (\<lambda>(c, as). int (cls_id c) + sum_list as) (Key cls_A [1, 2])"
  using Key_eq_structural [of cls_A cls_B "Key cls_A [1, 2]" "Key cls_A [1, 2]"
      "\<lambda>(c, as). int (cls_id c) + sum_list as"]
  by (simp add: cls_A_def cls_B_def)

text \<open>
  C6, as stated, fails: two instances of the class \<^verbatim>\<open>D\<close>, which does not override
  \<^verbatim>\<open>descriptor_key\<close>, built with the arguments 1 and 2 (and computing different values)
  have the same key.
\<close>

theorem default_key_counterexample:
  "(1::int) \<noteq> 2 \<and> type_of (new_D 1) = type_of (new_D 2) \<and>
   calculate (new_D 1) [] [] \<noteq> calculate (new_D 2) [] [] \<and>
   descriptor_key (new_D 1) = Descriptor_descriptor_key (type_of (new_D 1)) \<and>
   descriptor_key (new_D 2) = Descriptor_descriptor_key (type_of (new_D 2)) \<and>
   \<not> descriptor_key (new_D 1) \<noteq> descriptor_key (new_D 2)"
  by (simp add: new_D_def)

text \<open>
  C6, amended. The default \<^verbatim>\<open>descriptor_key\<close> is the class of the instance with an
  empty argument sequence: two instances of one class that do not override it have the
  same key, whatever they were constructed with.
\<close>

theorem default_key_type_only:
  "descriptor_key d1 = Descriptor_descriptor_key (type_of d1) \<Longrightarrow>
   descriptor_key d2 = Descriptor_descriptor_key (type_of d2) \<Longrightarrow>
   type_of d1 = type_of d2 \<Longrightarrow>
   descriptor_key d1 = Some (Key (type_of d1) []) \<and> descriptor_key d1 = descriptor_key d2"
  by (simp add: Descriptor_descriptor_key_def make_key_def)

theorem default_key_type_only_witness:
  "descriptor_key (new_D 1) = Descriptor_descriptor_key (type_of (new_D 1)) \<and>
   descriptor_key (new_D 2) = Descriptor_descriptor_key (type_of (new_D 2)) \<and>
   type_of (new_D 1) = type_of (new_D 2) \<and>
   descriptor_key (new_D 1) = Some (Key cls_D []) \<and>
   descriptor_key (new_D 1) = descriptor_key (new_D 2)"
  using default_key_type_only [of "new_D 1" "new_D 2"]
  by (simp add: new_D_def)

section \<open>The variant cache derives each variant once\<close>






















section \<open>Charge annotation and the cached variants\<close>

text \<open>
  C5. After the explicit-hydrogen variant is cached (object 1, contents
  \<open>[Kekulize, AddHs]\<close>), requesting the same variant with charges stores the very same
  object 1 under the new key, and the contents of the object cached under the old key
  have changed.
\<close>

theorem gasteiger_shares_cached_object:
  "cache mol_ex1 (True, False, False) = Some 1 \<and>
   heap mol_ex1 ! 1 = [''Kekulize'', ''AddHs''] \<and>
   cache mol_ex2 (True, False, False) = Some 1 \<and>
   cache mol_ex2 (True, False, True) = Some 1 \<and>
   heap mol_ex2 ! 1 = [''Kekulize'', ''AddHs'', ''Gasteiger'']"
  by code_simp

section \<open>Registration\<close>

lemma register_one_Inst:
  "\<exists>s. register_one self (Inst d) = (None, s) \<and> descriptors s = descriptors self @ [d]"
  by (simp add: register_one_def)

lemma register_each_insts:
  "\<exists>s. register_each self (map Inst ds) = (None, s) \<and> descriptors s = descriptors self @ ds"
proof (induction ds arbitrary: self)
  case Nil
  then show ?case by simp
next
  case (Cons d ds)
  from register_one_Inst[of self d] obtain s0 where
    s0: "register_one self (Inst d) = (None, s0)" "descriptors s0 = descriptors self @ [d]"
    by blast
  from Cons[of s0] s0 show ?case by auto
qed

lemma register_insts_each:
  "register classes self (map Inst ds) = register_each self (map Inst ds)"
  by (induction ds arbitrary: self) (auto simp: register_one_def)

lemma register_each_append:
  "register_each self xs = (None, s1) \<Longrightarrow> register_each self (xs @ ys) = register_each s1 ys"
  by (induction xs arbitrary: self) (auto split: prod.splits option.splits)

lemma register_each_ok:
  "register_each self xs = (None, s1) \<Longrightarrow>
   \<exists>ds. register_each self (map Inst ds) = (None, s1)"
proof (induction xs arbitrary: self)
  case Nil
  then have "register_each self (map Inst []) = (None, s1)" by simp
  then show ?case by blast
next
  case (Cons x xs)
  from Cons.prems obtain s0 where x: "register_one self x = (None, s0)"
    and r: "register_each s0 xs = (None, s1)"
    by (auto split: prod.splits option.splits)
  from x obtain d where d: "x = Inst d" by (cases x) (auto simp: register_one_def)
  from Cons.IH[OF r] obtain ds where "register_each s0 (map Inst ds) = (None, s1)" by blast
  with x d have "register_each self (map Inst (d # ds)) = (None, s1)" by simp
  then show ?case by blast
qed

lemma insts_compose:
  "register_each self (map Inst ds) = (None, s1) \<Longrightarrow>
   register_each s1 (map Inst es) = (None, s2) \<Longrightarrow>
   register_each self (map Inst (ds @ es)) = (None, s2)"
  using register_each_append[of self "map Inst ds" s1 "map Inst es"] by simp

lemma register_type_ok:
  "register_type classes self c = (None, s1) \<Longrightarrow>
   \<exists>ds. register_each self (map Inst ds) = (None, s1)"
  by (auto simp: register_type_def split: prod.splits option.splits dest: register_each_ok)

lemma register_module_ok:
  "register_module classes self attrs names = (None, s1) \<Longrightarrow>
   \<exists>ds. register_each self (map Inst ds) = (None, s1)"
proof (induction names arbitrary: self)
  case Nil
  then have "register_each self (map Inst []) = (None, s1)" by simp
  then show ?case by blast
next
  case (Cons name names)
  show ?case
  proof (cases "take 1 name = ''_''")
    case True
    with Cons show ?thesis by simp
  next
    case False
    show ?thesis
    proof (cases "map_of attrs name")
      case None
      with Cons.prems False show ?thesis by simp
    next
      case (Some a)
      show ?thesis
      proof (cases a)
        case AOther
        with Cons.prems False Some show ?thesis by simp
      next
        case (AClass d)
        show ?thesis
        proof (cases "is_descriptor (classes d)")
          case False
          with Cons \<open>take 1 name \<noteq> ''_''\<close> Some AClass show ?thesis by simp
        next
          case True
          with Cons.prems \<open>take 1 name \<noteq> ''_''\<close> Some AClass
          obtain s0 where t: "register_type classes self d = (None, s0)"
            and r: "register_module classes s0 attrs names = (None, s1)"
            by (auto split: prod.splits option.splits)
          from register_type_ok[OF t] Cons.IH[OF r] show ?thesis
            by (blast intro: insts_compose)
        qed
      qed
    qed
  qed
qed

lemma register_ok:
  shows "register classes self xs = (None, s1) \<Longrightarrow>
      \<exists>ds. register_each self (map Inst ds) = (None, s1)"
    and "register_item classes self x = (None, s1) \<Longrightarrow>
      \<exists>ds. register_each self (map Inst ds) = (None, s1)"
proof (induction classes self xs and classes self x arbitrary: s1 and s1
    rule: register_register_item.induct)
  case (1 classes self)
  then have "register_each self (map Inst []) = (None, s1)" by simp
  then show ?case by blast
next
  case (2 classes self desc descs)
  from "2.prems" obtain s0 where x: "register_item classes self desc = (None, s0)"
    and r: "register classes s0 descs = (None, s1)"
    by (auto split: prod.splits option.splits)
  from "2.IH"(1)[OF x] obtain ds where d: "register_each self (map Inst ds) = (None, s0)"
    by blast
  from "2.IH"(2)[OF x[symmetric] refl r] obtain es where e: "register_each s0 (map Inst es) = (None, s1)"
    by blast
  from insts_compose[OF d e] show ?case by blast
next
  case (3 classes self d)
  then show ?case using register_each_ok[of self "[Inst d]" s1] by auto
next
  case (4 classes self n)
  then show ?case by (simp add: register_one_def)
next
  case (5 classes self c)
  then show ?case by (auto dest: register_type_ok)
next
  case (6 classes self attrs)
  then show ?case by (auto dest: register_module_ok)
next
  case (7 classes self)
  then show ?case by simp
next
  case (8 classes self c rest)
  from "8.prems" obtain obj where "register_one self obj = (None, s1)"
    by (auto split: sum.splits)
  then have "register_each self [obj] = (None, s1)" by simp
  from register_each_ok[OF this] show ?case .
qed auto

lemma register_each_app:
  "register_each self (ys @ zs) =
     (case register_each self ys of
        (None, s1) \<Rightarrow> register_each s1 zs
      | (Some e, s1) \<Rightarrow> (Some e, s1))"
proof (induction ys arbitrary: self)
  case Nil
  show ?case by simp
next
  case (Cons y ys)
  obtain eo s0 where r: "register_one self y = (eo, s0)" by (cases "register_one self y")
  show ?case
  proof (cases eo)
    case None
    with r Cons[of s0] show ?thesis by simp
  next
    case (Some e)
    with r show ?thesis by simp
  qed
qed

lemma register_stream_append:
  "register_stream self (append_flat a b) =
     (case register_stream self a of
        (None, s1) \<Rightarrow> register_stream s1 b
      | (Some e, s1) \<Rightarrow> (Some e, s1))"
proof -
  obtain ys eo where a: "a = (ys, eo)" by (cases a)
  obtain r s0 where e: "register_each self ys = (r, s0)" by (cases "register_each self ys")
  show ?thesis
  proof (cases eo)
    case None
    show ?thesis
    proof (cases r)
      case None
      with \<open>eo = None\<close> a e show ?thesis
        by (simp add: register_stream_def append_flat_def register_each_app
            split: prod.splits option.splits)
    next
      case (Some e')
      with \<open>eo = None\<close> a e show ?thesis
        by (simp add: register_stream_def append_flat_def register_each_app
            split: prod.splits option.splits)
    qed
  next
    case (Some e1)
    show ?thesis
    proof (cases r)
      case None
      with Some a e show ?thesis
        by (simp add: register_stream_def append_flat_def)
    next
      case (Some e')
      with \<open>eo = Some e1\<close> a e show ?thesis
        by (simp add: register_stream_def append_flat_def)
    qed
  qed
qed

lemma register_type_stream:
  "register_type classes self c = register_stream self (preset (classes c))"
  by (simp add: register_type_def register_stream_def)

lemma register_module_stream:
  "register_module classes self attrs names =
   register_stream self (flat_module classes attrs names)"
proof (induction names arbitrary: self)
  case Nil
  show ?case by (simp add: register_stream_def)
next
  case (Cons name names)
  show ?case
  proof (cases "take 1 name = ''_''")
    case True
    with Cons show ?thesis by simp
  next
    case False
    show ?thesis
    proof (cases "map_of attrs name")
      case None
      with False show ?thesis by (simp add: register_stream_def)
    next
      case (Some a)
      show ?thesis
      proof (cases a)
        case AOther
        with False Some show ?thesis by (simp add: register_stream_def)
      next
        case (AClass d)
        show ?thesis
        proof (cases "is_descriptor (classes d)")
          case False
          with Cons \<open>take 1 name \<noteq> ''_''\<close> Some AClass show ?thesis by simp
        next
          case True
          have "register_module classes self attrs (name # names) =
              (case register_type classes self d of
                  (None, self1) \<Rightarrow> register_module classes self1 attrs names
                | (Some e, self1) \<Rightarrow> (Some e, self1))"
            using True \<open>take 1 name \<noteq> ''_''\<close> Some AClass by simp
          also have "\<dots> = (case register_stream self (preset (classes d)) of
                  (None, self1) \<Rightarrow> register_stream self1 (flat_module classes attrs names)
                | (Some e, self1) \<Rightarrow> (Some e, self1))"
            by (simp add: register_type_stream Cons.IH split: prod.splits option.splits)
          also have "\<dots> = register_stream self
              (append_flat (preset (classes d)) (flat_module classes attrs names))"
            by (rule register_stream_append[symmetric])
          also have "\<dots> = register_stream self (flat_module classes attrs (name # names))"
            using True \<open>take 1 name \<noteq> ''_''\<close> Some AClass by simp
          finally show ?thesis .
        qed
      qed
    qed
  qed
qed

lemma register_one_stream: "register_one self x = register_stream self ([x], None)"
  by (cases "register_one self x") (auto simp: register_stream_def split: option.splits)

lemma register_is_stream:
  shows "register classes self xs = register_stream self (flat_all classes xs)"
    and "register_item classes self x = register_stream self (flat classes x)"
proof (induction classes self xs and classes self x rule: register_register_item.induct)
  case (1 classes self)
  show ?case by (simp add: register_stream_def)
next
  case (2 classes self desc descs)
  obtain eo s1 where P: "register_item classes self desc = (eo, s1)"
    by (cases "register_item classes self desc")
  from P "2.IH"(1) have Q: "register_stream self (flat classes desc) = (eo, s1)" by simp
  show ?case
  proof (cases eo)
    case None
    from "2.IH"(2)[OF P[unfolded None, symmetric] refl]
    have "register classes s1 descs = register_stream s1 (flat_all classes descs)" .
    with P Q None show ?thesis by (simp add: register_stream_append)
  next
    case (Some e)
    with P Q show ?thesis by (simp add: register_stream_append)
  qed
next
  case (3 classes self d)
  show ?case by (simp add: register_one_stream)
next
  case (4 classes self n)
  show ?case by (simp add: register_one_stream)
next
  case (5 classes self c)
  show ?case by (simp add: register_type_stream)
next
  case (6 classes self attrs)
  show ?case by (simp add: register_module_stream dir_def)
next
  case (7 classes self)
  show ?case by (simp add: register_stream_def)
next
  case (8 classes self c rest)
  show ?case
  proof (cases "construct (classes c) rest")
    case (Inl e)
    then show ?thesis by (simp add: register_stream_def)
  next
    case (Inr obj)
    then show ?thesis by (simp add: register_one_stream)
  qed
qed simp_all

lemma register_each_all_insts:
  "register_each self ys = (None, s1) \<Longrightarrow> \<exists>ds. ys = map Inst ds"
proof (induction ys arbitrary: self)
  case Nil
  show ?case by simp
next
  case (Cons y ys)
  from Cons.prems obtain s0 where x: "register_one self y = (None, s0)"
    and r: "register_each s0 ys = (None, s1)"
    by (auto split: prod.splits option.splits)
  from x obtain d where d: "y = Inst d" by (cases y) (auto simp: register_one_def)
  from Cons.IH[OF r] obtain ds where "ys = map Inst ds" by blast
  with d have "y # ys = map Inst (d # ds)" by simp
  then show ?case by (rule exI)
qed

lemma register_one_not_inst:
  "\<forall>d. obj \<noteq> Inst d \<Longrightarrow> register_one self obj = (Some ValueError_not_descriptor, self)"
  by (cases obj) (simp_all add: register_one_def)

text \<open>
  C7, as stated, fails: a module whose only class does not derive from \<^verbatim>\<open>Descriptor\<close>
  resolves to no descriptor instance, and its registration succeeds, leaving the
  registry as it was.
\<close>

theorem register_non_descriptor_counterexample:
  "\<not> is_descriptor (classes_ex cls_Helper) \<and>
   register classes_ex calc0 [Module [(''Helper'', AClass cls_Helper)]] = (None, calc0)"
  by (simp add: classes_ex_def other_class_def cls_Helper_def cls_D_def cls_Loop_def dir_def)

text \<open>
  C7, amended. \<^verbatim>\<open>register\<close> is the registration, one by one and in order, of the flat
  list of objects that the nesting of the accepted shapes resolves to. When these are
  all descriptor instances, the registry is the one left by registering each resolved
  instance individually, the instances appended in that order; \<^verbatim>\<open>register\<close> succeeds
  only then. The first resolved object that is not a descriptor instance (a number, or
  what a \<^verbatim>\<open>(type, *args)\<close> tuple builds from a class that is not a descriptor class)
  makes it fail with the \<^verbatim>\<open>ValueError\<close> of \<^verbatim>\<open>_register_one\<close>, the instances resolved
  before it registered. A class of a module that does not derive from \<^verbatim>\<open>Descriptor\<close>
  resolves to nothing and is skipped without an error.
\<close>

theorem register_flattens:
  "register classes self items = register_stream self (flat_all classes items) \<and>
   (flat_all classes items = (map Inst ds, None) \<longrightarrow>
      register classes self items = register classes self (map Inst ds) \<and>
      fst (register classes self items) = None \<and>
      descriptors (snd (register classes self items)) = descriptors self @ ds) \<and>
   (flat_all classes items = (map Inst ds @ obj # others, e) \<and> (\<forall>d. obj \<noteq> Inst d) \<longrightarrow>
      fst (register classes self items) = Some ValueError_not_descriptor \<and>
      descriptors (snd (register classes self items)) = descriptors self @ ds) \<and>
   (register classes self items = (None, self') \<longrightarrow>
      (\<exists>ds'. flat_all classes items = (map Inst ds', None)) \<and>
      register classes self (map Inst (drop (length (descriptors self)) (descriptors self')))
        = (None, self')) \<and>
   register_item classes self (Seq items) = register classes self items \<and>
   register classes self [Atom n] = (Some ValueError_not_descriptor, self) \<and>
   (construct (classes c) rest = Inr obj \<and> (\<forall>d. obj \<noteq> Inst d) \<longrightarrow>
      register classes self [Tuple (Type c # rest)] = (Some ValueError_not_descriptor, self)) \<and>
   (\<not> is_descriptor (classes c) \<longrightarrow>
      register classes self [Module [(name, AClass c)]] = (None, self))"
proof (intro conjI impI)
  show "register classes self items = register_stream self (flat_all classes items)"
    by (rule register_is_stream(1))
next
  assume f: "flat_all classes items = (map Inst ds, None)"
  from register_each_insts[of self ds] obtain s1 where
    s1: "register_each self (map Inst ds) = (None, s1)" "descriptors s1 = descriptors self @ ds"
    by blast
  have r: "register classes self items = (None, s1)"
    by (simp add: register_is_stream(1) f register_stream_def s1(1))
  show "register classes self items = register classes self (map Inst ds)"
    by (simp add: r register_insts_each s1(1))
  show "fst (register classes self items) = None" by (simp add: r)
  show "descriptors (snd (register classes self items)) = descriptors self @ ds"
    by (simp add: r s1(2))
next
  assume "flat_all classes items = (map Inst ds @ obj # others, e) \<and> (\<forall>d. obj \<noteq> Inst d)"
  then have f: "flat_all classes items = (map Inst ds @ obj # others, e)"
    and o: "\<forall>d. obj \<noteq> Inst d" by blast+
  from register_each_insts[of self ds] obtain s1 where
    s1: "register_each self (map Inst ds) = (None, s1)" "descriptors s1 = descriptors self @ ds"
    by blast
  have "register_each self (map Inst ds @ obj # others) = (Some ValueError_not_descriptor, s1)"
    by (simp add: register_each_app s1(1) register_one_not_inst[OF o])
  then have r: "register classes self items = (Some ValueError_not_descriptor, s1)"
    by (simp add: register_is_stream(1) f register_stream_def)
  show "fst (register classes self items) = Some ValueError_not_descriptor" by (simp add: r)
  show "descriptors (snd (register classes self items)) = descriptors self @ ds"
    by (simp add: r s1(2))
next
  assume r: "register classes self items = (None, self')"
  obtain ys eo where f: "flat_all classes items = (ys, eo)" by (cases "flat_all classes items")
  obtain ro s0 where e: "register_each self ys = (ro, s0)" by (cases "register_each self ys")
  from r[unfolded register_is_stream(1) f register_stream_def] e
  have "ro = None \<and> eo = None" by (cases ro) auto
  with e register_each_all_insts[of self ys s0] obtain ds' where "ys = map Inst ds'" by blast
  with f \<open>ro = None \<and> eo = None\<close>
  show "\<exists>ds'. flat_all classes items = (map Inst ds', None)" by blast
next
  assume r: "register classes self items = (None, self')"
  from register_ok(1)[OF r] obtain ds where ds: "register_each self (map Inst ds) = (None, self')"
    by blast
  with register_each_insts[of self ds] have "descriptors self' = descriptors self @ ds" by simp
  then have "drop (length (descriptors self)) (descriptors self') = ds" by simp
  with ds show "register classes self (map Inst (drop (length (descriptors self)) (descriptors self')))
        = (None, self')"
    by (simp add: register_insts_each)
next
  show "register_item classes self (Seq items) = register classes self items" by simp
next
  show "register classes self [Atom n] = (Some ValueError_not_descriptor, self)"
    by (simp add: register_one_def)
next
  assume "construct (classes c) rest = Inr obj \<and> (\<forall>d. obj \<noteq> Inst d)"
  then show "register classes self [Tuple (Type c # rest)] = (Some ValueError_not_descriptor, self)"
    by (cases obj) (simp_all add: register_one_def)
next
  assume "\<not> is_descriptor (classes c)"
  then show "register classes self [Module [(name, AClass c)]] = (None, self)"
    by (simp add: dir_def)
qed

theorem register_flattens_witness:
  "flat_all classes_ex items_ex = (map Inst [new_D 1, new_D 2, new_D 5, new_D 1, new_D 2, new_D 7, new_D 8], None) \<and>
   register classes_ex calc0 items_ex = register classes_ex calc0 (map Inst [new_D 1, new_D 2, new_D 5, new_D 1, new_D 2, new_D 7, new_D 8]) \<and>
   fst (register classes_ex calc0 items_ex) = None \<and>
   descriptors (snd (register classes_ex calc0 items_ex)) = descriptors calc0 @ [new_D 1, new_D 2, new_D 5, new_D 1, new_D 2, new_D 7, new_D 8] \<and>
   flat_all classes_ex items_bad = (map Inst [new_D 7] @ Atom 3 # [Inst (new_D 8)], None) \<and>
   fst (register classes_ex calc0 items_bad) = Some ValueError_not_descriptor \<and>
   descriptors (snd (register classes_ex calc0 items_bad)) = descriptors calc0 @ [new_D 7] \<and>
   construct (classes_ex cls_Helper) [] = Inr (Atom 0) \<and>
   register classes_ex calc0 [Tuple [Type cls_Helper]] = (Some ValueError_not_descriptor, calc0) \<and>
   \<not> is_descriptor (classes_ex cls_Helper) \<and>
   register classes_ex calc0 [Module [(''Helper'', AClass cls_Helper)]] = (None, calc0)"
proof -
  have dirs: "sort (remdups (map fst [(''Helper'', AClass cls_Helper), (''D'', AClass cls_D)])) =
      [''D'', ''Helper'']"
    by code_simp
  have fl: "flat_all classes_ex items_ex = (map Inst [new_D 1, new_D 2, new_D 5, new_D 1, new_D 2, new_D 7, new_D 8], None)"
    unfolding items_ex_def
    by (simp add: dirs append_flat_def classes_ex_def other_class_def cls_D_def cls_Helper_def
        cls_Loop_def)
  have fb: "flat_all classes_ex items_bad = (map Inst [new_D 7] @ Atom 3 # [Inst (new_D 8)], None)"
    by (simp add: items_bad_def append_flat_def)
  have o: "\<forall>d. (Atom 3 :: (string list, int) item) \<noteq> Inst d" by simp
  have c1: "construct (classes_ex cls_Helper) [] = Inr (Atom 0)"
    by (simp add: classes_ex_def other_class_def cls_Helper_def cls_D_def cls_Loop_def)
  have c2: "\<forall>d. (Atom 0 :: (string list, int) item) \<noteq> Inst d" by simp
  have h: "\<not> is_descriptor (classes_ex cls_Helper)"
    by (simp add: classes_ex_def other_class_def cls_Helper_def cls_D_def cls_Loop_def)
  note T1 = register_flattens [where classes = classes_ex and self = calc0 and items = items_ex
      and ds = "[new_D 1, new_D 2, new_D 5, new_D 1, new_D 2, new_D 7, new_D 8]" and c = cls_Helper and rest = "[]" and obj = "Atom 0" and name = "''Helper''"]
  note T2 = register_flattens [where classes = classes_ex and self = calc0 and items = items_bad
      and ds = "[new_D 7]" and obj = "Atom 3" and others = "[Inst (new_D 8)]" and e = None]
  note B = T1[THEN conjunct2, THEN conjunct1, rule_format, OF fl]
  note C = T2[THEN conjunct2, THEN conjunct2, THEN conjunct1, rule_format, OF conjI[OF fb o]]
  note G = T1[THEN conjunct2, THEN conjunct2, THEN conjunct2, THEN conjunct2, THEN conjunct2,
      THEN conjunct2, THEN conjunct1, rule_format, OF conjI[OF c1 c2]]
  note H = T1[THEN conjunct2, THEN conjunct2, THEN conjunct2, THEN conjunct2, THEN conjunct2,
      THEN conjunct2, THEN conjunct2, rule_format, OF h]
  from fl B fb C c1 G h H show ?thesis by (intro conjI) blast+
qed

lemma register_append:
  "register classes self (xs @ ys) =
     (case register classes self xs of
        (None, s1) \<Rightarrow> register classes s1 ys
      | (Some e, s1) \<Rightarrow> (Some e, s1))"
  by (induction xs arbitrary: self) (auto split: prod.splits option.splits)










section \<open>Evaluation\<close>

lemma resolve_args_None:
  "resolve_args calc ((name, DepNone) # rest) s =
     (case resolve_args calc rest s of
        (Return kwargs, s1) \<Rightarrow> (Return ((name, None) # kwargs), s1)
      | (Raise e, s1) \<Rightarrow> (Raise e, s1)
      | (OutOfFuel, s1) \<Rightarrow> (OutOfFuel, s1))"
  by simp

lemma resolve_args_dep:
  "d \<noteq> DepNone \<Longrightarrow> resolve_args calc ((name, d) # rest) s =
     (case calc d s of
        (Return v, s1) \<Rightarrow>
          (case resolve_args calc rest s1 of
             (Return kwargs, s2) \<Rightarrow> (Return ((name, Some v) # kwargs), s2)
           | (Raise e, s2) \<Rightarrow> (Raise e, s2)
           | (OutOfFuel, s2) \<Rightarrow> (OutOfFuel, s2))
      | (Raise e, s1) \<Rightarrow> (Raise e, s1)
      | (OutOfFuel, s1) \<Rightarrow> (OutOfFuel, s1))"
  by (cases d) simp_all

lemma resolve_args_rel:
  assumes rfl: "\<And>s. R s s"
    and trans: "\<And>s1 s2 s3. R s1 s2 \<Longrightarrow> R s2 s3 \<Longrightarrow> R s1 s3"
    and step: "\<And>d s out s'. calc d s = (out, s') \<Longrightarrow> R s s'"
  shows "resolve_args calc deps s = (out, s') \<Longrightarrow> R s s'"
proof (induction deps arbitrary: s out s')
  case Nil
  then show ?case using rfl by simp
next
  case (Cons p rest)
  obtain name d where p: "p = (name, d)" by (cases p)
  show ?case
  proof (cases "d = DepNone")
    case True
    with Cons p show ?thesis
      by (auto simp del: resolve_args.simps simp: resolve_args_None split: prod.splits outcome.splits)
  next
    case False
    obtain o1 s1 where c: "calc d s = (o1, s1)" by (cases "calc d s")
    note u = Cons.prems[unfolded p resolve_args_dep[OF False] c]
    show ?thesis
    proof (cases o1)
      case (Return v)
      obtain o2 s2 where r: "resolve_args calc rest s1 = (o2, s2)"
        by (cases "resolve_args calc rest s1")
      from Cons.IH[OF r] have "R s1 s2" .
      moreover from u Return r have "s' = s2" by (auto split: outcome.splits)
      ultimately show ?thesis using step[OF c] trans by blast
    next
      case (Raise e)
      with u step[OF c] show ?thesis by auto
    next
      case OutOfFuel
      with u step[OF c] show ?thesis by auto
    qed
  qed
qed

lemma frame_refl: "frame s s"
  unfolding frame_def by simp

lemma frame_trans: "frame s1 s2 \<Longrightarrow> frame s2 s3 \<Longrightarrow> frame s1 s3"
  unfolding frame_def by (metis Calculator.surjective Calculator.update_convs(5))

lemma calculate_instance_frame:
  assumes step: "\<And>d s out s'. calc d s = (out, s') \<Longrightarrow> frame s s'"
    and r: "calculate_instance rd calc desc s = (out, s')"
  shows "frame s s'"
proof -
  obtain o1 s1 where a: "resolve_args calc (dependencies desc) s = (o1, s1)"
    by (cases "resolve_args calc (dependencies desc) s")
  have f1: "frame s s1"
    by (rule resolve_args_rel[OF frame_refl frame_trans step a])
  have "frame s1 s'"
    using r a unfolding calculate_instance_def frame_def
    by (auto split: outcome.splits option.splits prod.splits sum.splits simp: Let_def)
  with f1 show ?thesis by (rule frame_trans)
qed

lemma calculate_frame:
  "Calculator_calculate classes rd fuel d s = (out, s') \<Longrightarrow> frame s s'"
proof (induction fuel arbitrary: d s out s')
  case 0
  then show ?case by (simp add: frame_refl)
next
  case (Suc n)
  note step = Suc.IH
  show ?case
  proof (cases d)
    case DepNone
    with Suc.prems show ?thesis by (auto simp: frame_refl)
  next
    case (DepKey k)
    with Suc.prems show ?thesis
      by (auto simp: frame_refl split: option.splits sum.splits item.splits
          intro: calculate_instance_frame[OF step])
  next
    case (DepDesc desc)
    with Suc.prems show ?thesis
      by (auto simp: frame_refl split: option.splits
          intro: calculate_instance_frame[OF step])
  qed
qed

lemma gen_next_frame:
  assumes "gen_next classes rd hash_args fuel self g = (r, self', g')"
  shows "self' = self\<lparr>molecule := molecule self'\<rparr>"
proof (cases "\<not> finished g \<and> pos g < length (descriptors self)")
  case False
  with assms show ?thesis by (auto simp: gen_next_def split: if_splits)
next
  case True
  obtain out s' where c: "Calculator_calculate classes rd fuel (DepDesc (descriptors self ! pos g))
      \<lparr>calculator = self, results = gen_cache g, trace = gen_trace g\<rparr> = (out, s')"
    by (cases "Calculator_calculate classes rd fuel (DepDesc (descriptors self ! pos g))
      \<lparr>calculator = self, results = gen_cache g, trace = gen_trace g\<rparr>")
  from calculate_frame[OF c] have "calculator s' = self\<lparr>molecule := molecule (calculator s')\<rparr>"
    by (simp add: frame_def)
  moreover from assms True c have "self' = calculator s'"
    by (auto simp: gen_next_def Let_def split: outcome.splits)
  ultimately show ?thesis by simp
qed

lemma consume_frame:
  "consume classes rd hash_args fuel n self g = (ps, stop, self', g') \<Longrightarrow>
   self' = self\<lparr>molecule := molecule self'\<rparr>"
proof (induction n arbitrary: self g ps stop self' g')
  case 0
  then show ?case by simp
next
  case (Suc n)
  obtain r self1 g1 where nx: "gen_next classes rd hash_args fuel self g = (r, self1, g1)"
    by (cases "gen_next classes rd hash_args fuel self g")
  note f1 = gen_next_frame[OF nx]
  show ?case
  proof (cases "\<exists>p. r = Return (Some p)")
    case True
    then obtain p where r: "r = Return (Some p)" by blast
    obtain ps2 stop2 self2 g2 where
      c: "consume classes rd hash_args fuel n self1 g1 = (ps2, stop2, self2, g2)"
      by (cases "consume classes rd hash_args fuel n self1 g1")
    from Suc.prems nx r c have "self' = self2" by simp
    with Suc.IH[OF c] f1 show ?thesis
      by (metis Calculator.surjective Calculator.update_convs(5))
  next
    case False
    with Suc.prems nx have "self' = self1"
      by (auto split: outcome.splits option.splits)
    with f1 show ?thesis by simp
  qed
qed

text \<open>
  C3, as stated, fails: with two calls made on one calculator before the first
  generator is consumed, the first generator computes on the variant cache of the second
  call. Alone, the first call on the raw input \<open>[]\<close> yields 2; once the second call,
  on \<open>[x]\<close>, has been made, it yields 3.
\<close>

theorem interleaved_calls_counterexample:
  "fst (gen_next classes_ex rd_ex hash0 5 (fst (Calculator_call rd_ex calc_len []))
          (snd (Calculator_call rd_ex calc_len []))) = Return (Some (''TypeA0'', 2)) \<and>
   fst (gen_next classes_ex rd_ex hash0 5
          (fst (Calculator_call rd_ex (fst (Calculator_call rd_ex calc_len [])) [''x'']))
          (snd (Calculator_call rd_ex calc_len []))) = Return (Some (''TypeA0'', 3))"
  by code_simp

text \<open>
  C3, amended. Each call starts with an empty result cache and an empty trace, owned by
  its generator; its variant cache is stored on the calculator as \<^verbatim>\<open>self.molecule\<close>,
  replacing the one of the call before, and nothing else of the calculator changes. A
  call does not depend on the \<^verbatim>\<open>molecule\<close> the calculator holds, so a call made after
  an earlier call was consumed, wholly or in part, is the call it would have been on the
  calculator before: the registry can be reused, one raw input after the other.
\<close>

theorem call_owns_result_cache:
  "gen_cache (snd (Calculator_call rd self mol)) = Map.empty \<and>
   gen_trace (snd (Calculator_call rd self mol)) = [] \<and>
   molecule (fst (Calculator_call rd self mol)) = Some (Molecule_init rd mol) \<and>
   Calculator_call rd (self\<lparr>molecule := m\<rparr>) mol = Calculator_call rd self mol \<and>
   (consume classes rd hash_args fuel n (fst (Calculator_call rd self raw_a))
        (snd (Calculator_call rd self raw_a)) = (ps, stop, self_after, g_after) \<longrightarrow>
      Calculator_call rd self_after raw_b = Calculator_call rd self raw_b)"
proof (intro conjI impI)
  assume c: "consume classes rd hash_args fuel n (fst (Calculator_call rd self raw_a))
        (snd (Calculator_call rd self raw_a)) = (ps, stop, self_after, g_after)"
  from consume_frame[OF c] have "self_after = self\<lparr>molecule := molecule self_after\<rparr>"
    by (simp add: Calculator_call_def)
  then have "self_after\<lparr>molecule := Some (Molecule_init rd raw_b)\<rparr> =
             self\<lparr>molecule := Some (Molecule_init rd raw_b)\<rparr>"
    by (metis Calculator.update_convs(5) Calculator.surjective)
  then show "Calculator_call rd self_after raw_b = Calculator_call rd self raw_b"
    by (simp add: Calculator_call_def)
qed (simp_all add: Calculator_call_def)

theorem call_owns_result_cache_witness:
  "fst (consume classes_ex rd_ex hash0 5 1 (fst (Calculator_call rd_ex calc_len []))
          (snd (Calculator_call rd_ex calc_len []))) = [(''TypeA0'', 2)] \<and>
   Calculator_call rd_ex
     (fst (snd (snd (consume classes_ex rd_ex hash0 5 1 (fst (Calculator_call rd_ex calc_len []))
          (snd (Calculator_call rd_ex calc_len [])))))) [''x''] =
   Calculator_call rd_ex calc_len [''x'']"
proof -
  have a: "fst (consume classes_ex rd_ex hash0 5 1 (fst (Calculator_call rd_ex calc_len []))
          (snd (Calculator_call rd_ex calc_len []))) = [(''TypeA0'', 2)]"
    by code_simp
  have b: "consume classes_ex rd_ex hash0 5 1 (fst (Calculator_call rd_ex calc_len []))
          (snd (Calculator_call rd_ex calc_len [])) =
        (fst (consume classes_ex rd_ex hash0 5 1 (fst (Calculator_call rd_ex calc_len []))
          (snd (Calculator_call rd_ex calc_len []))),
         fst (snd (consume classes_ex rd_ex hash0 5 1 (fst (Calculator_call rd_ex calc_len []))
          (snd (Calculator_call rd_ex calc_len [])))),
         fst (snd (snd (consume classes_ex rd_ex hash0 5 1 (fst (Calculator_call rd_ex calc_len []))
          (snd (Calculator_call rd_ex calc_len []))))),
         snd (snd (snd (consume classes_ex rd_ex hash0 5 1 (fst (Calculator_call rd_ex calc_len []))
          (snd (Calculator_call rd_ex calc_len []))))))"
    by simp
  note T = call_owns_result_cache [where rd = rd_ex and self = calc_len and raw_a = "[]"
      and raw_b = "[''x'']" and classes = classes_ex and hash_args = hash0 and fuel = 5 and n = 1,
      THEN conjunct2, THEN conjunct2, THEN conjunct2, THEN conjunct2, rule_format, OF b]
  from a T show ?thesis by (rule conjI)
qed

text \<open>
  C2, as stated, fails: the registry holds one descriptor that depends on its own key.
  Its resolution raises nothing: fifty levels deep it is still recursing.
\<close>

theorem cycle_counterexample:
  "fst (gen_next classes_ex rd_ex hash0 50 (fst (Calculator_call rd_ex calc_Loop []))
          (snd (Calculator_call rd_ex calc_Loop []))) = OutOfFuel"
  by code_simp

text \<open>
  C2, amended. There is no in-progress set and no cycle error. Let \<open>S\<close> be a set of
  dependencies (keys or instances), none cached, each of which is, or creates, a
  descriptor whose first dependency is again in \<open>S\<close>. Then the resolution of any of them
  does not come back, at any depth of recursion, and neither does the element of the
  output that is a descriptor of \<open>S\<close>.
\<close>

theorem cycle_recurses_without_bound:
  assumes S: "\<forall>d\<in>S. (\<forall>k. dep_key d = Some k \<longrightarrow> results s k = None) \<and>
      (\<exists>desc name d' rest.
         (d = DepDesc desc \<or> (\<exists>k. d = DepKey k \<and> Key_create classes k = Inr (Inst desc))) \<and>
         dependencies desc = (name, d') # rest \<and> d' \<in> S)"
  shows "(\<forall>d\<in>S. Calculator_calculate classes rd fuel d s = (OutOfFuel, s)) \<and>
     (\<not> finished g \<and> pos g < length (descriptors self) \<and>
      DepDesc (descriptors self ! pos g) \<in> S \<and>
      s = \<lparr>calculator = self, results = gen_cache g, trace = gen_trace g\<rparr> \<longrightarrow>
      fst (gen_next classes rd hash_args fuel self g) = OutOfFuel)"
proof -
  have calc: "\<forall>d\<in>S. Calculator_calculate classes rd fuel d s = (OutOfFuel, s)"
proof (induction fuel)
  case 0
  show ?case by simp
next
  case (Suc n)
  show ?case
  proof
    fix d assume d: "d \<in> S"
    from S d obtain desc name d' rest where
      nc: "\<forall>k. dep_key d = Some k \<longrightarrow> results s k = None" and
      dd: "d = DepDesc desc \<or> (\<exists>k. d = DepKey k \<and> Key_create classes k = Inr (Inst desc))" and
      deps: "dependencies desc = (name, d') # rest" and d': "d' \<in> S"
      by blast
    from S d' have "d' \<noteq> DepNone" by auto
    with Suc d' have "resolve_args (Calculator_calculate classes rd n) (dependencies desc) s
        = (OutOfFuel, s)"
      by (simp add: deps resolve_args_dep del: resolve_args.simps)
    then have ci: "calculate_instance rd (Calculator_calculate classes rd n) desc s = (OutOfFuel, s)"
      by (simp add: calculate_instance_def)
    from dd show "Calculator_calculate classes rd (Suc n) d s = (OutOfFuel, s)"
    proof
      assume "d = DepDesc desc"
      with nc ci show ?thesis by (auto split: option.splits)
    next
      assume "\<exists>k. d = DepKey k \<and> Key_create classes k = Inr (Inst desc)"
      with nc ci show ?thesis by (auto split: option.splits)
    qed
  qed
qed
  then show ?thesis
    by (auto simp: gen_next_def Let_def)
qed

theorem cycle_recurses_without_bound_witness:
  "Calculator_calculate classes_ex rd_ex 1000 (DepDesc new_Loop)
     \<lparr>calculator = fst (Calculator_call rd_ex calc_Loop []), results = Map.empty, trace = []\<rparr> =
   (OutOfFuel,
    \<lparr>calculator = fst (Calculator_call rd_ex calc_Loop []), results = Map.empty, trace = []\<rparr>) \<and>
   fst (gen_next classes_ex rd_ex hash0 1000 (fst (Calculator_call rd_ex calc_Loop []))
          (snd (Calculator_call rd_ex calc_Loop []))) = OutOfFuel"
proof -
  let ?s = "\<lparr>calculator = fst (Calculator_call rd_ex calc_Loop []),
             results = Map.empty :: key \<rightharpoonup> int, trace = []\<rparr>"
  let ?S = "{DepKey (make_key cls_Loop []), DepDesc new_Loop}"
  have k: "Key_create classes_ex (make_key cls_Loop []) = Inr (Inst new_Loop)"
    by (simp add: Key_create_def classes_ex_def make_key_def cls_Loop_def cls_D_def)
  have d: "dependencies new_Loop = [(''x'', DepKey (make_key cls_Loop []))]"
    by (simp add: new_Loop_def)
  have h: "\<forall>d\<in>?S. (\<forall>k. dep_key d = Some k \<longrightarrow> results ?s k = None) \<and>
      (\<exists>desc name d' rest.
         (d = DepDesc desc \<or> (\<exists>k. d = DepKey k \<and> Key_create classes_ex k = Inr (Inst desc))) \<and>
         dependencies desc = (name, d') # rest \<and> d' \<in> ?S)"
    using k d by auto
  have g: "\<not> finished (snd (Calculator_call rd_ex calc_Loop [])) \<and>
      pos (snd (Calculator_call rd_ex calc_Loop [])) <
        length (descriptors (fst (Calculator_call rd_ex calc_Loop []))) \<and>
      DepDesc (descriptors (fst (Calculator_call rd_ex calc_Loop [])) !
                 pos (snd (Calculator_call rd_ex calc_Loop []))) \<in> ?S \<and>
      ?s = \<lparr>calculator = fst (Calculator_call rd_ex calc_Loop []),
            results = gen_cache (snd (Calculator_call rd_ex calc_Loop [])),
            trace = gen_trace (snd (Calculator_call rd_ex calc_Loop []))\<rparr>"
    by (simp add: Calculator_call_def calc_Loop_def calc0_def)
  note T = cycle_recurses_without_bound [OF h, where rd = rd_ex and fuel = 1000
      and g = "snd (Calculator_call rd_ex calc_Loop [])"
      and self = "fst (Calculator_call rd_ex calc_Loop [])" and hash_args = hash0]
  from T g show ?thesis by blast
qed

lemma replay_append: "replay (xs @ ys) c = replay ys (replay xs c)"
proof (induction xs arbitrary: c)
  case Nil
  show ?case by simp
next
  case (Cons x xs)
  show ?case
  proof (cases x)
    case (Computed k r)
    then show ?thesis by (simp only: append_Cons replay.simps Cons.IH)
  next
    case (Stored k v)
    then show ?thesis by (simp only: append_Cons replay.simps Cons.IH)
  qed
qed

lemma replay_not_stored: "k \<notin> set (stored evs) \<Longrightarrow> replay evs c k = c k"
proof (induction evs arbitrary: c)
  case Nil
  show ?case by simp
next
  case (Cons x xs)
  show ?case
  proof (cases x)
    case (Computed k' r)
    with Cons.prems have "k \<notin> set (stored xs)" by simp
    from Cons.IH[OF this] Computed show ?thesis by (simp only: replay.simps)
  next
    case (Stored k' v)
    with Cons.prems have n: "k \<notin> set (stored xs)" and ne: "k \<noteq> k'" by auto
    have "replay (x # xs) c k = replay xs (c(k' \<mapsto> v)) k"
      by (simp only: Stored replay.simps)
    also have "\<dots> = (c(k' \<mapsto> v)) k" by (rule Cons.IH[OF n])
    also have "\<dots> = c k" using ne by simp
    finally show ?thesis .
  qed
qed

lemma clean_append: "clean (xs @ ys) \<longleftrightarrow> clean xs \<and> clean ys"
  by (auto simp: clean_def)

lemma clean_butlast: "clean xs \<Longrightarrow> clean (butlast xs)"
  by (auto simp: clean_def dest: in_set_butlastD)

lemma clean_last: "clean xs \<Longrightarrow> xs \<noteq> [] \<Longrightarrow> last xs \<noteq> Computed ko (Inl e)"
  by (metis clean_def last_in_set)

lemma ok_trace_refl: "ok_trace s ret r s"
  unfolding ok_trace_def by (rule exI[of _ "[]"]) (simp add: clean_def)

lemma ok_trace_trans:
  assumes a: "ok_trace s True r1 s1" and b: "ok_trace s1 ret r s2"
  shows "ok_trace s ret r s2"
proof -
  from a obtain n1 where n1: "trace s1 = trace s @ n1" "results s1 = replay n1 (results s)"
    "clean n1" unfolding ok_trace_def by blast
  from b obtain n2 where n2: "trace s2 = trace s1 @ n2" "results s2 = replay n2 (results s1)"
    "clean (butlast n2)" "ret \<longrightarrow> clean n2"
    "\<forall>ko e. n2 \<noteq> [] \<and> last n2 = Computed ko (Inl e) \<longrightarrow> r = Some e"
    unfolding ok_trace_def by blast
  have 1: "trace s2 = trace s @ (n1 @ n2)" using n1 n2 by simp
  have 2: "results s2 = replay (n1 @ n2) (results s)" using n1 n2 by (simp add: replay_append)
  have 3: "clean (butlast (n1 @ n2))"
    using n1(3) n2(3) by (cases "n2 = []") (simp_all add: clean_butlast butlast_append clean_append)
  have 4: "ret \<longrightarrow> clean (n1 @ n2)" using n1(3) n2(4) by (simp add: clean_append)
  have 5: "\<forall>ko e. n1 @ n2 \<noteq> [] \<and> last (n1 @ n2) = Computed ko (Inl e) \<longrightarrow> r = Some e"
  proof (cases "n2 = []")
    case True
    then show ?thesis using clean_last[OF n1(3)] by auto
  next
    case False
    then show ?thesis using n2(5) by simp
  qed
  show ?thesis unfolding ok_trace_def using 1 2 3 4 5 by blast
qed

lemma resolve_args_ok:
  assumes step: "\<And>d s out s'. calc d s = (out, s') \<Longrightarrow> ok_trace s (is_return out) (raised out) s'"
  shows "resolve_args calc deps s = (out, s') \<Longrightarrow> ok_trace s (is_return out) (raised out) s'"
proof (induction deps arbitrary: s out s')
  case Nil
  then show ?case by (simp add: ok_trace_refl)
next
  case (Cons p rest)
  obtain name d where p: "p = (name, d)" by (cases p)
  show ?case
  proof (cases "d = DepNone")
    case True
    obtain o2 s2 where r: "resolve_args calc rest s = (o2, s2)"
      by (cases "resolve_args calc rest s")
    from Cons.IH[OF r] have i: "ok_trace s (is_return o2) (raised o2) s2" .
    from Cons.prems p True r have "s' = s2 \<and> is_return out = is_return o2 \<and> raised out = raised o2"
      by (cases o2) auto
    with i show ?thesis by simp
  next
    case False
    obtain o1 s1 where c: "calc d s = (o1, s1)" by (cases "calc d s")
    note u = Cons.prems[unfolded p resolve_args_dep[OF False] c]
    note s1 = step[OF c]
    show ?thesis
    proof (cases o1)
      case (Return v)
      obtain o2 s2 where r: "resolve_args calc rest s1 = (o2, s2)"
        by (cases "resolve_args calc rest s1")
      from Cons.IH[OF r] have i: "ok_trace s1 (is_return o2) (raised o2) s2" .
      from u Return r have "s' = s2 \<and> is_return out = is_return o2 \<and> raised out = raised o2"
        by (cases o2) auto
      with i s1 Return show ?thesis using ok_trace_trans by fastforce
    next
      case (Raise e)
      with u s1 show ?thesis by auto
    next
      case OutOfFuel
      with u s1 show ?thesis by auto
    qed
  qed
qed

lemma ok_trace_step:
  assumes "trace s' = trace s @ new" "results s' = replay new (results s)"
    "clean (butlast new)" "ret \<longrightarrow> clean new"
    "\<forall>ko e. new \<noteq> [] \<and> last new = Computed ko (Inl e) \<longrightarrow> r = Some e"
  shows "ok_trace s ret r s'"
  unfolding ok_trace_def using assms by blast

lemma calculate_instance_ok:
  assumes step: "\<And>d s out s'. calc d s = (out, s') \<Longrightarrow> ok_trace s (is_return out) (raised out) s'"
    and r: "calculate_instance rd calc desc s = (out, s')"
  shows "ok_trace s (is_return out) (raised out) s'"
proof -
  obtain o1 s1 where a: "resolve_args calc (dependencies desc) s = (o1, s1)"
    by (cases "resolve_args calc (dependencies desc) s")
  have f1: "ok_trace s (is_return o1) (raised o1) s1"
    by (rule resolve_args_ok[OF step a])
  show ?thesis
  proof (cases o1)
    case (Raise e)
    with r a f1 show ?thesis by (auto simp: calculate_instance_def)
  next
    case OutOfFuel
    with r a f1 show ?thesis by (auto simp: calculate_instance_def)
  next
    case (Return kwargs)
    with f1 have f: "ok_trace s True None s1" by simp
    show ?thesis
    proof (cases "molecule (calculator s1)")
      case None
      with r a Return have "out = Raise AttributeError" "s' = s1"
        by (simp_all add: calculate_instance_def)
      then show ?thesis using ok_trace_trans[OF f ok_trace_refl] by simp
    next
      case (Some m)
      obtain mol m1 where g: "Molecule_get rd m (explicit_hydrogens desc) (kekulize desc)
                                 (gasteiger_charges desc) = (mol, m1)"
        by (cases "Molecule_get rd m (explicit_hydrogens desc) (kekulize desc)
                                 (gasteiger_charges desc)")
      define res where "res = calculate desc (heap m1 ! mol) kwargs"
      define s2 where "s2 = s1\<lparr>calculator := (calculator s1)\<lparr>molecule := Some m1\<rparr>,
                           trace := trace s1 @ [Computed (descriptor_key desc) res]\<rparr>"
      have u: "(out, s') = (case res of
                    Inl e \<Rightarrow> (Raise e, s2)
                  | Inr v \<Rightarrow>
                      (case descriptor_key desc of
                         None \<Rightarrow> (Raise ValueError_key_not_provided, s2)
                       | Some k \<Rightarrow>
                           (Return v, s2\<lparr>results := (results s2)(k \<mapsto> v),
                                         trace := trace s2 @ [Stored k v]\<rparr>)))"
        using r a Return Some g unfolding calculate_instance_def res_def s2_def
        by (simp add: Let_def)
      have "ok_trace s1 (is_return out) (raised out) s'"
      proof (cases res)
        case (Inl e)
        with u have "out = Raise e" "s' = s2" by simp_all
        then show ?thesis
          by (intro ok_trace_step[where new = "[Computed (descriptor_key desc) res]"])
            (simp_all add: s2_def Inl clean_def)
      next
        case (Inr v)
        show ?thesis
        proof (cases "descriptor_key desc")
          case None
          with u Inr have "out = Raise ValueError_key_not_provided" "s' = s2" by simp_all
          then show ?thesis
            by (intro ok_trace_step[where new = "[Computed (descriptor_key desc) res]"])
              (simp_all add: s2_def Inr clean_def)
        next
          case (Some k)
          with u Inr have "out = Return v"
            "s' = s2\<lparr>results := (results s2)(k \<mapsto> v), trace := trace s2 @ [Stored k v]\<rparr>"
            by simp_all
          then show ?thesis
            by (intro ok_trace_step[where new = "[Computed (descriptor_key desc) res, Stored k v]"])
              (simp_all add: s2_def Inr clean_def)
        qed
      qed
      with f show ?thesis by (rule ok_trace_trans)
    qed
  qed
qed

lemma calculate_ok:
  "Calculator_calculate classes rd fuel d s = (out, s') \<Longrightarrow>
   ok_trace s (is_return out) (raised out) s'"
proof (induction fuel arbitrary: d s out s')
  case 0
  then show ?case by (simp add: ok_trace_refl)
next
  case (Suc n)
  note step = Suc.IH
  show ?case
  proof (cases d)
    case DepNone
    with Suc.prems show ?thesis by (auto simp: ok_trace_refl)
  next
    case (DepKey k)
    with Suc.prems show ?thesis
      by (auto simp: ok_trace_refl split: option.splits sum.splits item.splits
          intro: calculate_instance_ok[OF step])
  next
    case (DepDesc desc)
    with Suc.prems show ?thesis
      by (auto simp: ok_trace_refl split: option.splits
          intro: calculate_instance_ok[OF step])
  qed
qed

lemma consume_raise:
  "consume classes rd hash_args fuel n self0 g0 = (ps, None, self, g) \<Longrightarrow>
   gen_next classes rd hash_args fuel self g = (Raise e, self', g') \<Longrightarrow>
   consume classes rd hash_args fuel (Suc n) self0 g0 = (ps, Some (Raise e), self', g')"
proof (induction n arbitrary: self0 g0 ps)
  case 0
  then show ?case by simp
next
  case (Suc n)
  obtain r s1 g1 where nx: "gen_next classes rd hash_args fuel self0 g0 = (r, s1, g1)"
    by (cases "gen_next classes rd hash_args fuel self0 g0")
  from Suc.prems(1) nx obtain p where r: "r = Return (Some p)"
    by (cases r) (auto split: option.splits)
  obtain ps1 st1 s2 g2 where c: "consume classes rd hash_args fuel n s1 g1 = (ps1, st1, s2, g2)"
    by (cases "consume classes rd hash_args fuel n s1 g1")
  from Suc.prems(1) nx r c have e: "ps = p # ps1" "st1 = None" "s2 = self" "g2 = g"
    by simp_all
  from Suc.IH[OF c[unfolded e(2,3,4)] Suc.prems(2)]
  have "consume classes rd hash_args fuel (Suc n) s1 g1 = (ps1, Some (Raise e), self', g')" .
  then show ?case
    using nx r e(1) by (simp del: consume.simps add: consume.simps(2)[of _ _ _ _ "Suc n" self0 g0])
qed

lemma gen_next_idle:
  assumes "finished g \<or> \<not> pos g < length (descriptors self)"
    and "gen_next classes rd hash_args fuel self g = (r, self', g')"
  shows "gen_trace g' = gen_trace g"
  using assms by (auto simp: gen_next_def split: if_splits)

lemma gen_next_active:
  assumes "\<not> finished g" "pos g < length (descriptors self)"
    and "gen_next classes rd hash_args fuel self g = (r, self', g')"
    and "Calculator_calculate classes rd fuel (DepDesc (descriptors self ! pos g))
           \<lparr>calculator = self, results = gen_cache g, trace = gen_trace g\<rparr> = (out, s')"
  shows "gen_trace g' = trace s'" "gen_cache g' = results s'"
    "raised r = raised out" "is_return r = is_return out"
    "finished g' \<longleftrightarrow> raised out \<noteq> None" "pos g' = Suc (pos g)" "self' = calculator s'"
  using assms by (auto simp: gen_next_def Let_def split: outcome.splits)

text \<open>
  C8. If, while an element of the output is produced, a descriptor's \<^verbatim>\<open>calculate\<close>
  raises \<open>e\<close> (at any depth of the resolution), then \<^verbatim>\<open>next\<close> raises that same \<open>e\<close> and
  the generator has ended: a further \<^verbatim>\<open>next\<close> is \<^verbatim>\<open>StopIteration\<close>. The failing call is
  the last thing the resolution did, and no \<^verbatim>\<open>calculate\<close> before it raised: nothing is
  stored after it, the result cache being the old one with the assignments made before
  the failure; in particular the failing identity has no value in the cache unless it
  had one before or a resolution before the failure stored one. The pairs yielded before
  remain: consuming one element more than the \<open>n\<close> that were yielded gives the same
  pairs and the exception.
\<close>

theorem compute_error_propagates:
  assumes nx: "gen_next classes rd hash_args fuel self g = (r, self', g')"
    and tr: "gen_trace g' = gen_trace g @ new"
    and fail: "Computed ko (Inl e) \<in> set new"
  shows "r = Raise e \<and> finished g' \<and>
     last new = Computed ko (Inl e) \<and> clean (butlast new) \<and>
     gen_cache g' = replay (butlast new) (gen_cache g) \<and>
     (\<forall>k. ko = Some k \<and> gen_cache g k = None \<and> k \<notin> set (stored (butlast new)) \<longrightarrow>
          gen_cache g' k = None) \<and>
     gen_next classes rd hash_args fuel_after self' g' = (Return None, self', g') \<and>
     (consume classes rd hash_args fuel n self_before g_before = (ps, None, self, g) \<longrightarrow>
      consume classes rd hash_args fuel (Suc n) self_before g_before =
        (ps, Some (Raise e), self', g'))"
proof -
  have "\<not> (finished g \<or> \<not> pos g < length (descriptors self))"
  proof
    assume "finished g \<or> \<not> pos g < length (descriptors self)"
    from gen_next_idle[OF this nx] tr have "new = []" by simp
    with fail show False by simp
  qed
  then have act: "\<not> finished g" "pos g < length (descriptors self)" by blast+
  obtain out s' where c: "Calculator_calculate classes rd fuel (DepDesc (descriptors self ! pos g))
           \<lparr>calculator = self, results = gen_cache g, trace = gen_trace g\<rparr> = (out, s')"
    by (cases "Calculator_calculate classes rd fuel (DepDesc (descriptors self ! pos g))
           \<lparr>calculator = self, results = gen_cache g, trace = gen_trace g\<rparr>")
  note G = gen_next_active[OF act nx c]
  from calculate_ok[OF c] obtain new0 where
    n0: "trace s' = gen_trace g @ new0" "results s' = replay new0 (gen_cache g)"
      "clean (butlast new0)"
      "\<forall>ko e. new0 \<noteq> [] \<and> last new0 = Computed ko (Inl e) \<longrightarrow> raised out = Some e"
    unfolding ok_trace_def by auto
  from n0(1) G(1) tr have eq: "new0 = new" by simp
  from fail have ne: "new \<noteq> []" by auto
  have "Computed ko (Inl e) \<notin> set (butlast new)"
    using n0(3) unfolding eq clean_def by blast
  with fail ne have l: "last new = Computed ko (Inl e)"
    by (metis append_butlast_last_id in_set_conv_decomp_first rotate1.simps(2) set_ConsD set_rotate1)
  with n0(4) ne have ro: "raised out = Some e" unfolding eq by blast
  with G(3) have r: "r = Raise e" by (cases r) auto
  from ro G(5) have fin: "finished g'" by simp
  have "replay new (gen_cache g) = replay (butlast new @ [last new]) (gen_cache g)"
    using ne by simp
  also have "\<dots> = replay (butlast new) (gen_cache g)"
    unfolding l replay_append by simp
  finally have cache: "gen_cache g' = replay (butlast new) (gen_cache g)"
    using G(2) n0(2) eq by simp
  have nostore: "\<forall>k. ko = Some k \<and> gen_cache g k = None \<and> k \<notin> set (stored (butlast new)) \<longrightarrow>
          gen_cache g' k = None"
    unfolding cache by (auto simp: replay_not_stored)
  have stop: "gen_next classes rd hash_args fuel_after self' g' = (Return None, self', g')"
    using fin by (simp add: gen_next_def)
  have cons: "consume classes rd hash_args fuel n self_before g_before = (ps, None, self, g) \<longrightarrow>
      consume classes rd hash_args fuel (Suc n) self_before g_before =
        (ps, Some (Raise e), self', g')"
    using consume_raise nx[unfolded r] by blast
  from r fin l n0(3)[unfolded eq] cache nostore stop cons show ?thesis by blast
qed

theorem compute_error_propagates_witness:
  "fst run1_fail = [(''D0'', 7)] \<and>
   fst step_fail = Raise (Raised ''ComputationError'') \<and>
   finished (snd (snd step_fail)) \<and>
   gen_cache (snd (snd step_fail)) (make_key cls_B []) = None \<and>
   gen_next classes_ex rd_ex hash0 9 (fst (snd step_fail)) (snd (snd step_fail)) =
     (Return None, fst (snd step_fail), snd (snd step_fail)) \<and>
   consume classes_ex rd_ex hash0 5 (Suc 1) (fst (Calculator_call rd_ex calc_fail []))
       (snd (Calculator_call rd_ex calc_fail [])) =
     ([(''D0'', 7)], Some (Raise (Raised ''ComputationError'')),
      fst (snd step_fail), snd (snd step_fail))"
proof -
  let ?new = "[Computed (Some (make_key cls_B [])) (Inl (Raised ''ComputationError'') :: exn + int)]"
  have a: "fst run1_fail = [(''D0'', 7)]" by code_simp
  have b: "fst (snd run1_fail) = None" by code_simp
  have run: "consume classes_ex rd_ex hash0 5 1 (fst (Calculator_call rd_ex calc_fail []))
                 (snd (Calculator_call rd_ex calc_fail [])) =
      ([(''D0'', 7)], None, fst (snd (snd run1_fail)), snd (snd (snd run1_fail)))"
    using a b unfolding run1_fail_def[symmetric] by (simp add: prod_eq_iff)
  have nx: "gen_next classes_ex rd_ex hash0 5 (fst (snd (snd run1_fail)))
                 (snd (snd (snd run1_fail))) =
      (fst step_fail, fst (snd step_fail), snd (snd step_fail))"
    unfolding step_fail_def[symmetric] by simp
  have tr: "gen_trace (snd (snd step_fail)) = gen_trace (snd (snd (snd run1_fail))) @ ?new"
    by code_simp
  have fail: "Computed (Some (make_key cls_B [])) (Inl (Raised ''ComputationError'')) \<in> set ?new"
    by simp
  have c: "gen_cache (snd (snd (snd run1_fail))) (make_key cls_B []) = None"
    by code_simp
  note T = compute_error_propagates [OF nx tr fail, where fuel_after = 9 and n = 1
      and self_before = "fst (Calculator_call rd_ex calc_fail [])"
      and g_before = "snd (Calculator_call rd_ex calc_fail [])" and ps = "[(''D0'', 7)]"]
  from T c run a show ?thesis by simp
qed

section \<open>Memoized resolution\<close>




















lemma stored_mem: "Stored k v \<in> set evs \<Longrightarrow> k \<in> set (stored evs)"
proof (induction evs)
  case Nil
  then show ?case by simp
next
  case (Cons x xs)
  then show ?case by (cases x) auto
qed



lemma st_simps [simp]:
  "calculator (st self g) = self" "results (st self g) = gen_cache g"
  "trace (st self g) = gen_trace g"
  by (simp_all add: st_def)













end
